theory Spec2Isabelle
  imports Complex_Main "HOL-Library.Multiset" "HOL-Library.Monad_Syntax" "HOL-Library.Log_Nat"
begin

section \<open>Numbers of the program\<close>

text \<open>
  The allocation engine computes on JavaScript numbers, which are IEEE 754 binary64
  values. A finite number is given by its exact value, a rational; the infinities and
  NaN are constructors of their own. Negative zero is not distinguished from zero.
  Every arithmetic operation rounds its exact result to the nearest binary64 value,
  a tie going to the even significand.
\<close>

datatype jsnum = Fin rat | PosInf | NegInf | NaN

text \<open>Powers of two with an integer exponent.\<close>

definition pot2 :: "int \<Rightarrow> rat" where
  "pot2 e = 2 powi e"

text \<open>
  The binary exponent of a positive rational \<open>p/q\<close>: the integer \<open>e\<close> with
  \<^verbatim>\<open>2^e <= p/q < 2^(e+1)\<close>, found from the bit lengths of \<open>p\<close> and \<open>q\<close>.
\<close>

definition exponente :: "rat \<Rightarrow> int" where
  "exponente x =
     (let (p, q) = quotient_of x; d = bitlen p - bitlen q
      in if pot2 d \<le> x then d else d - 1)"

text \<open>The nearest integer, a tie going to the even one.\<close>

definition redondeo_par :: "rat \<Rightarrow> int" where
  "redondeo_par q =
     (let f = \<lfloor>q\<rfloor>; r = q - of_int f
      in if r < 1 / 2 then f else if 1 / 2 < r then f + 1 else if even f then f else f + 1)"

text \<open>
  Rounding a positive rational: the significand has 53 bits, so the binary64 values
  around a number of exponent \<open>e\<close> are the multiples of \<^verbatim>\<open>2^(e-52)\<close>; the exponent is not
  taken below -1022 (below it the values are subnormal, multiples of \<^verbatim>\<open>2^(-1074)\<close>); a
  result of \<^verbatim>\<open>2^1024\<close> or more is an overflow.
\<close>

definition redondear_a :: "int \<Rightarrow> rat \<Rightarrow> rat" where
  "redondear_a e x = of_int (redondeo_par (x / pot2 (e - 52))) * pot2 (e - 52)"

definition rnd_pos :: "rat \<Rightarrow> jsnum" where
  "rnd_pos x =
     (let y = redondear_a (max (- 1022) (exponente x)) x
      in if pot2 1024 \<le> y then PosInf else Fin y)"

fun js_neg :: "jsnum \<Rightarrow> jsnum" where
  "js_neg (Fin x) = Fin (- x)"
| "js_neg PosInf = NegInf"
| "js_neg NegInf = PosInf"
| "js_neg NaN = NaN"

definition rnd64 :: "rat \<Rightarrow> jsnum" where
  "rnd64 x = (if x = 0 then Fin 0 else if 0 < x then rnd_pos x else js_neg (rnd_pos (- x)))"

text \<open>The operators \<^verbatim>\<open>+\<close>, \<^verbatim>\<open>-\<close>, \<^verbatim>\<open>*\<close> and \<^verbatim>\<open>/\<close>. A zero divisor gives an infinity or NaN, never a
  fault.\<close>

fun js_add :: "jsnum \<Rightarrow> jsnum \<Rightarrow> jsnum" where
  "js_add NaN _ = NaN"
| "js_add _ NaN = NaN"
| "js_add (Fin a) (Fin b) = rnd64 (a + b)"
| "js_add (Fin a) PosInf = PosInf"
| "js_add (Fin a) NegInf = NegInf"
| "js_add PosInf (Fin b) = PosInf"
| "js_add NegInf (Fin b) = NegInf"
| "js_add PosInf PosInf = PosInf"
| "js_add PosInf NegInf = NaN"
| "js_add NegInf PosInf = NaN"
| "js_add NegInf NegInf = NegInf"

fun js_sub :: "jsnum \<Rightarrow> jsnum \<Rightarrow> jsnum" where
  "js_sub NaN _ = NaN"
| "js_sub _ NaN = NaN"
| "js_sub (Fin a) (Fin b) = rnd64 (a - b)"
| "js_sub (Fin a) PosInf = NegInf"
| "js_sub (Fin a) NegInf = PosInf"
| "js_sub PosInf (Fin b) = PosInf"
| "js_sub NegInf (Fin b) = NegInf"
| "js_sub PosInf PosInf = NaN"
| "js_sub PosInf NegInf = PosInf"
| "js_sub NegInf PosInf = NegInf"
| "js_sub NegInf NegInf = NaN"

fun js_mul :: "jsnum \<Rightarrow> jsnum \<Rightarrow> jsnum" where
  "js_mul NaN _ = NaN"
| "js_mul _ NaN = NaN"
| "js_mul (Fin a) (Fin b) = rnd64 (a * b)"
| "js_mul (Fin a) PosInf = (if a = 0 then NaN else if 0 < a then PosInf else NegInf)"
| "js_mul (Fin a) NegInf = (if a = 0 then NaN else if 0 < a then NegInf else PosInf)"
| "js_mul PosInf (Fin b) = (if b = 0 then NaN else if 0 < b then PosInf else NegInf)"
| "js_mul NegInf (Fin b) = (if b = 0 then NaN else if 0 < b then NegInf else PosInf)"
| "js_mul PosInf PosInf = PosInf"
| "js_mul PosInf NegInf = NegInf"
| "js_mul NegInf PosInf = NegInf"
| "js_mul NegInf NegInf = PosInf"

fun js_div :: "jsnum \<Rightarrow> jsnum \<Rightarrow> jsnum" where
  "js_div NaN _ = NaN"
| "js_div _ NaN = NaN"
| "js_div (Fin a) (Fin b) =
     (if b \<noteq> 0 then rnd64 (a / b)
      else if a = 0 then NaN
      else if 0 < a then PosInf else NegInf)"
| "js_div (Fin a) PosInf = Fin 0"
| "js_div (Fin a) NegInf = Fin 0"
| "js_div PosInf (Fin b) = (if 0 \<le> b then PosInf else NegInf)"
| "js_div NegInf (Fin b) = (if 0 \<le> b then NegInf else PosInf)"
| "js_div PosInf PosInf = NaN"
| "js_div PosInf NegInf = NaN"
| "js_div NegInf PosInf = NaN"
| "js_div NegInf NegInf = NaN"

text \<open>The comparison \<^verbatim>\<open><=\<close>: false whenever an operand is NaN.\<close>

fun js_le :: "jsnum \<Rightarrow> jsnum \<Rightarrow> bool" where
  "js_le NaN _ = False"
| "js_le _ NaN = False"
| "js_le (Fin a) (Fin b) = (a \<le> b)"
| "js_le (Fin a) PosInf = True"
| "js_le (Fin a) NegInf = False"
| "js_le PosInf (Fin b) = False"
| "js_le NegInf (Fin b) = True"
| "js_le PosInf PosInf = True"
| "js_le PosInf NegInf = False"
| "js_le NegInf PosInf = True"
| "js_le NegInf NegInf = True"

text \<open>
  \<^verbatim>\<open>Math.round\<close> (the nearest integer, a tie going towards plus infinity), \<^verbatim>\<open>Math.ceil\<close> and
  \<^verbatim>\<open>Math.max\<close>. The integer nearest to a binary64 value is a binary64 value: these do not
  round again.
\<close>

fun Math_round :: "jsnum \<Rightarrow> jsnum" where
  "Math_round (Fin x) = Fin (of_int \<lfloor>x + 1 / 2\<rfloor>)"
| "Math_round PosInf = PosInf"
| "Math_round NegInf = NegInf"
| "Math_round NaN = NaN"

fun Math_ceil :: "jsnum \<Rightarrow> jsnum" where
  "Math_ceil (Fin x) = Fin (of_int \<lceil>x\<rceil>)"
| "Math_ceil PosInf = PosInf"
| "Math_ceil NegInf = NegInf"
| "Math_ceil NaN = NaN"

fun Math_max :: "jsnum \<Rightarrow> jsnum \<Rightarrow> jsnum" where
  "Math_max NaN _ = NaN"
| "Math_max _ NaN = NaN"
| "Math_max PosInf _ = PosInf"
| "Math_max _ PosInf = PosInf"
| "Math_max NegInf y = y"
| "Math_max x NegInf = x"
| "Math_max (Fin a) (Fin b) = Fin (max a b)"

text \<open>
  How \<^verbatim>\<open>sort\<close> reads what its comparator returns: a negative number or zero leaves the
  first argument before the second, and NaN is taken as zero.
\<close>

fun no_positivo :: "jsnum \<Rightarrow> bool" where
  "no_positivo (Fin v) = (v \<le> 0)"
| "no_positivo PosInf = False"
| "no_positivo NegInf = True"
| "no_positivo NaN = True"

fun es_cero :: "jsnum \<Rightarrow> bool" where
  "es_cero (Fin v) = (v = 0)"
| "es_cero PosInf = False"
| "es_cero NegInf = False"
| "es_cero NaN = True"

text \<open>
  The place of a number on the number line, with the infinities put just beyond the
  finite binary64 values.
\<close>

fun valor :: "jsnum \<Rightarrow> rat" where
  "valor (Fin x) = x"
| "valor PosInf = pot2 1024"
| "valor NegInf = - pot2 1024"
| "valor NaN = 0"

section \<open>Data model\<close>

text \<open>
  A row of \<^verbatim>\<open>tiendas\<close> as the optimisation endpoint selects it (a demand item), a row of
  \<^verbatim>\<open>vehiculos\<close> (a capacity unit), the route object built for each vehicle (a bin) and
  the metrics object. A numeric column of a row is given by the decimal it holds; the
  program reads it as the binary64 value nearest to that decimal. What the program
  computes and stores in a route or in the metrics is a number of the program. The
  field \<^verbatim>\<open>tiendas\<close> of a route is the list of its stores where objects are taken as
  values, and the address of its array where they live in a heap.
\<close>

record tienda =
  tienda_id :: string
  codigo :: string
  nombre :: string
  combis_promedio :: rat
  provincia :: string

record vehiculo =
  id_vehiculo :: string
  numero_camion :: int
  nombre_corto :: string
  tipo_pago :: string
  capacidad_combis :: rat

record 't ruta_de =
  vehiculo_id :: string
  vehiculo_nombre :: string
  capacidad_maxima :: jsnum
  capacidad_usada :: jsnum
  tiendas :: 't
  eficiencia :: jsnum

type_synonym ruta = "tienda list ruta_de"

record metricas =
  eficiencia_llenado :: jsnum
  vehiculos_necesarios :: nat
  vehiculos_disponibles :: nat
  tiendas_asignadas :: jsnum
  tiendas_totales :: nat
  capacidad_total :: jsnum
  capacidad_usada_total :: jsnum
  ahorro_potencial :: jsnum

text \<open>The number that the program reads from a numeric column, and the number of an array
  length.\<close>

definition num :: "rat \<Rightarrow> jsnum" where
  "num x = rnd64 x"

definition num_nat :: "nat \<Rightarrow> jsnum" where
  "num_nat n = rnd64 (of_nat n)"

section \<open>Array.prototype.sort\<close>

text \<open>
  \<^verbatim>\<open>sort(cmp)\<close> is a stable sort: an element stays before the elements that follow it
  in the input unless the comparator puts it strictly after them. The model is the
  stable insertion sort, which inserts the elements from the right.
\<close>

fun sort_insert :: "('a \<Rightarrow> 'a \<Rightarrow> jsnum) \<Rightarrow> 'a \<Rightarrow> 'a list \<Rightarrow> 'a list" where
  "sort_insert cmp x [] = [x]"
| "sort_insert cmp x (y # ys) =
     (if no_positivo (cmp x y) then x # y # ys else y # sort_insert cmp x ys)"

definition js_sort :: "('a \<Rightarrow> 'a \<Rightarrow> jsnum) \<Rightarrow> 'a list \<Rightarrow> 'a list" where
  "js_sort cmp xs = foldr (sort_insert cmp) xs []"

section \<open>optimizarRutasBasico\<close>

text \<open>The comparator \<^verbatim>\<open>(a, b) => b.combis_promedio - a.combis_promedio\<close>.\<close>

definition por_combis_desc :: "tienda \<Rightarrow> tienda \<Rightarrow> jsnum" where
  "por_combis_desc a b = js_sub (num (combis_promedio b)) (num (combis_promedio a))"

definition tiendasOrdenadas :: "tienda list \<Rightarrow> tienda list" where
  "tiendasOrdenadas ts = js_sort por_combis_desc ts"

text \<open>The object that \<^verbatim>\<open>vehiculos.map\<close> builds for one vehicle.\<close>

definition nueva_ruta :: "vehiculo \<Rightarrow> ruta" where
  "nueva_ruta v =
     \<lparr> vehiculo_id = id_vehiculo v,
       vehiculo_nombre = nombre_corto v,
       capacidad_maxima = num (capacidad_combis v),
       capacidad_usada = Fin 0,
       tiendas = [],
       eficiencia = Fin 0 \<rparr>"

text \<open>
  The sum \<^verbatim>\<open>ruta.capacidad_usada + tienda.combis_promedio\<close>, which the test and the \<^verbatim>\<open>+=\<close>
  both compute, and the expression \<^verbatim>\<open>(ruta.capacidad_usada / ruta.capacidad_maxima) * 100\<close>.
\<close>

definition suma_carga :: "jsnum \<Rightarrow> tienda \<Rightarrow> jsnum" where
  "suma_carga usada t = js_add usada (num (combis_promedio t))"

definition porcentaje :: "jsnum \<Rightarrow> jsnum \<Rightarrow> jsnum" where
  "porcentaje usada maxima = js_mul (js_div usada maxima) (Fin 100)"

text \<open>The body of the \<^verbatim>\<open>if\<close>: push the store, add its demand, recompute the efficiency.\<close>

definition cargar :: "tienda \<Rightarrow> ruta \<Rightarrow> ruta" where
  "cargar t r =
     r \<lparr> tiendas := tiendas r @ [t],
         capacidad_usada := suma_carga (capacidad_usada r) t,
         eficiencia := porcentaje (suma_carga (capacidad_usada r) t) (capacidad_maxima r) \<rparr>"

text \<open>
  The inner \<^verbatim>\<open>for (let ruta of rutas)\<close> with its \<^verbatim>\<open>break\<close>: the first route that has
  room takes the store, the routes after it are not looked at; when none has room the
  routes are left as they are.
\<close>

fun asignar :: "tienda \<Rightarrow> ruta list \<Rightarrow> ruta list" where
  "asignar t [] = []"
| "asignar t (r # rs) =
     (if js_le (suma_carga (capacidad_usada r) t) (capacidad_maxima r)
      then cargar t r # rs
      else r # asignar t rs)"

text \<open>
  The statements that follow the sort: build the routes, run \<^verbatim>\<open>forEach\<close> over the sorted
  stores, drop the routes that stayed empty.
\<close>

definition repartir :: "tienda list \<Rightarrow> vehiculo list \<Rightarrow> ruta list" where
  "repartir ordenadas vs =
     filter (\<lambda>r. length (tiendas r) > 0)
       (fold asignar ordenadas (map nueva_ruta vs))"

definition optimizarRutasBasico :: "tienda list \<Rightarrow> vehiculo list \<Rightarrow> ruta list" where
  "optimizarRutasBasico ts vs = repartir (tiendasOrdenadas ts) vs"

section \<open>calcularMetricas\<close>

text \<open>\<^verbatim>\<open>rutas.reduce((sum, ruta) => sum + f(ruta), 0)\<close>.\<close>

definition reduce_sum :: "('a \<Rightarrow> jsnum) \<Rightarrow> 'a list \<Rightarrow> jsnum" where
  "reduce_sum f xs = fold (\<lambda>x s. js_add s (f x)) xs (Fin 0)"

definition calcularMetricas :: "ruta list \<Rightarrow> nat \<Rightarrow> metricas" where
  "calcularMetricas rutas totalTiendas =
     (let totalCapacidad = reduce_sum capacidad_maxima rutas;
          capacidadUsada = reduce_sum capacidad_usada rutas;
          tiendasAsignadas = reduce_sum (\<lambda>r. num_nat (length (tiendas r))) rutas
      in \<lparr> eficiencia_llenado =
             Math_round (js_mul (js_div capacidadUsada totalCapacidad) (Fin 100)),
           vehiculos_necesarios = length rutas,
           vehiculos_disponibles = length rutas,
           tiendas_asignadas = tiendasAsignadas,
           tiendas_totales = totalTiendas,
           capacidad_total = totalCapacidad,
           capacidad_usada_total =
             js_div (Math_round (js_mul capacidadUsada (Fin 10))) (Fin 10),
           ahorro_potencial =
             Math_max (Fin 0)
               (js_sub (num_nat (length rutas))
                  (Math_ceil (js_div capacidadUsada
                     (js_div totalCapacidad (num_nat (length rutas)))))) \<rparr>)"

section \<open>The built-in sort as a contract\<close>

text \<open>
  What the language promises about \<^verbatim>\<open>xs.sort(cmp)\<close> for a consistent comparator,
  whatever algorithm the engine runs: the result is a rearrangement of the input, no
  element stands before one that the comparator puts strictly first, and elements that
  compare equal keep their input order.
\<close>

definition sort_contract :: "('a \<Rightarrow> 'a \<Rightarrow> jsnum) \<Rightarrow> 'a list \<Rightarrow> 'a list \<Rightarrow> bool" where
  "sort_contract cmp xs ys \<longleftrightarrow>
     mset ys = mset xs \<and>
     sorted_wrt (\<lambda>a b. no_positivo (cmp a b)) ys \<and>
     (\<forall>a \<in> set xs. filter (\<lambda>b. es_cero (cmp a b)) ys = filter (\<lambda>b. es_cero (cmp a b)) xs)"

section \<open>Rounding to one decimal\<close>

text \<open>
  The idiom \<^verbatim>\<open>Math.round(x * 10) / 10\<close> that \<^verbatim>\<open>calcularMetricas\<close> uses for
  \<^verbatim>\<open>capacidad_usada\<close>.
\<close>

definition redondear1 :: "jsnum \<Rightarrow> jsnum" where
  "redondear1 x = js_div (Math_round (js_mul x (Fin 10))) (Fin 10)"

section \<open>First-fit decreasing, as the specification words it\<close>

text \<open>
  A second definition, written from the specification and not from the code, to compare
  the code with. A bin wraps its capacity unit and carries the used load and the items
  in the order they were assigned. The specification does not say in which arithmetic
  the used load is kept, so the definition takes it as parameters: the zero, the sum,
  the comparison, the value of a demand item and of a capacity unit, and the place of a
  demand on the number line, by which the items are sorted.
\<close>

record 'n bin =
  bin_unit :: vehiculo
  bin_used :: 'n
  bin_items :: "tienda list"

record 'n aritmetica =
  cero :: 'n
  mas :: "'n \<Rightarrow> 'n \<Rightarrow> 'n"
  no_excede :: "'n \<Rightarrow> 'n \<Rightarrow> bool"
  demanda :: "tienda \<Rightarrow> 'n"
  capacidad :: "vehiculo \<Rightarrow> 'n"
  tamano :: "tienda \<Rightarrow> rat"

text \<open>
  Demand items by demand descending, ties in input order: the library's stable sort on
  the negated demand.
\<close>

definition ffd_sorted :: "'n aritmetica \<Rightarrow> tienda list \<Rightarrow> tienda list" where
  "ffd_sorted A ds = sort_key (\<lambda>d. - tamano A d) ds"

definition ffd_fits :: "'n aritmetica \<Rightarrow> tienda \<Rightarrow> 'n bin \<Rightarrow> bool" where
  "ffd_fits A d b \<longleftrightarrow> no_excede A (mas A (bin_used b) (demanda A d)) (capacidad A (bin_unit b))"

definition ffd_add :: "'n aritmetica \<Rightarrow> tienda \<Rightarrow> 'n bin \<Rightarrow> 'n bin" where
  "ffd_add A d b =
     b \<lparr> bin_used := mas A (bin_used b) (demanda A d), bin_items := bin_items b @ [d] \<rparr>"

text \<open>
  The item goes to the first bin that fits: the bins before it (none of which fits) and
  the bins after it stay as they are. When no bin fits, nothing changes.
\<close>

definition ffd_place :: "'n aritmetica \<Rightarrow> tienda \<Rightarrow> 'n bin list \<Rightarrow> 'n bin list" where
  "ffd_place A d bs =
     (case dropWhile (\<lambda>b. \<not> ffd_fits A d b) bs of
        [] \<Rightarrow> bs
      | b # after \<Rightarrow> takeWhile (\<lambda>b. \<not> ffd_fits A d b) bs @ ffd_add A d b # after)"

definition ffd_allocate :: "'n aritmetica \<Rightarrow> tienda list \<Rightarrow> vehiculo list \<Rightarrow> 'n bin list" where
  "ffd_allocate A ds cs =
     filter (\<lambda>b. bin_items b \<noteq> [])
       (fold (ffd_place A) (ffd_sorted A ds)
          (map (\<lambda>c. \<lparr> bin_unit = c, bin_used = cero A, bin_items = [] \<rparr>) cs))"

text \<open>
  The arithmetic of the real numbers on the decimals of the rows, and the arithmetic of
  the program on the numbers it reads from them.
\<close>

definition exacta :: "rat aritmetica" where
  "exacta =
     \<lparr> cero = 0, mas = (+), no_excede = (\<le>),
       demanda = combis_promedio, capacidad = capacidad_combis,
       tamano = combis_promedio \<rparr>"

definition binaria :: "jsnum aritmetica" where
  "binaria =
     \<lparr> cero = Fin 0, mas = js_add, no_excede = js_le,
       demanda = (\<lambda>d. num (combis_promedio d)), capacidad = (\<lambda>c. num (capacidad_combis c)),
       tamano = (\<lambda>d. valor (num (combis_promedio d))) \<rparr>"

text \<open>
  What a bin and a route object say about an assignment: the unit's identifier, name
  and capacity, the used load, the items in order.
\<close>

definition vista_bin ::
    "jsnum bin \<Rightarrow> string \<times> string \<times> jsnum \<times> jsnum \<times> tienda list" where
  "vista_bin b =
     (id_vehiculo (bin_unit b), nombre_corto (bin_unit b), num (capacidad_combis (bin_unit b)),
      bin_used b, bin_items b)"

definition vista_ruta :: "ruta \<Rightarrow> string \<times> string \<times> jsnum \<times> jsnum \<times> tienda list" where
  "vista_ruta r =
     (vehiculo_id r, vehiculo_nombre r, capacidad_maxima r, capacidad_usada r, tiendas r)"

section \<open>The program on a heap of objects\<close>

text \<open>
  The arguments of the two functions are references: arrays of row objects. To say what
  a call leaves unchanged, the objects are put in a heap, a list of cells addressed by
  position; \<^verbatim>\<open>[...xs]\<close>, \<^verbatim>\<open>map\<close>, \<^verbatim>\<open>filter\<close> and an object or array literal allocate a cell
  at the end, an assignment to a field and \<^verbatim>\<open>push\<close> overwrite a cell. An array holds the
  addresses of its elements.
\<close>

datatype cell =
    ObjTienda tienda
  | ObjVehiculo vehiculo
  | ObjRuta "nat ruta_de"
  | ObjArray "nat list"
  | ObjMetricas metricas

type_synonym heap = "cell list"

definition alloc :: "cell \<Rightarrow> heap \<Rightarrow> heap \<times> nat" where
  "alloc c h = (h @ [c], length h)"

text \<open>
  Reading a cell as an object of a given shape. \<open>None\<close> stands for an access that the
  program cannot make on rows of the declared shape (a dangling address, a property of
  something that is not the expected object); the functions below pass it on.
\<close>

definition leer :: "heap \<Rightarrow> nat \<Rightarrow> cell option" where
  "leer h a = (if a < length h then Some (h ! a) else None)"

definition leer_tienda :: "heap \<Rightarrow> nat \<Rightarrow> tienda option" where
  "leer_tienda h a = (case leer h a of Some (ObjTienda t) \<Rightarrow> Some t | _ \<Rightarrow> None)"

definition leer_vehiculo :: "heap \<Rightarrow> nat \<Rightarrow> vehiculo option" where
  "leer_vehiculo h a = (case leer h a of Some (ObjVehiculo v) \<Rightarrow> Some v | _ \<Rightarrow> None)"

definition leer_ruta :: "heap \<Rightarrow> nat \<Rightarrow> nat ruta_de option" where
  "leer_ruta h a = (case leer h a of Some (ObjRuta r) \<Rightarrow> Some r | _ \<Rightarrow> None)"

definition leer_array :: "heap \<Rightarrow> nat \<Rightarrow> nat list option" where
  "leer_array h a = (case leer h a of Some (ObjArray xs) \<Rightarrow> Some xs | _ \<Rightarrow> None)"

text \<open>\<^verbatim>\<open>x.combis_promedio\<close> for the element at an address of the sorted array.\<close>

definition combis_en :: "heap \<Rightarrow> nat \<Rightarrow> jsnum" where
  "combis_en h a =
     (case leer_tienda h a of Some t \<Rightarrow> num (combis_promedio t) | None \<Rightarrow> NaN)"

text \<open>
  \<^verbatim>\<open>.sort((a, b) => b.combis_promedio - a.combis_promedio)\<close> on the array at an address:
  the array is sorted in place, the comparator reads the stores its elements point to.
\<close>

definition ordenar_en_sitio :: "heap \<Rightarrow> nat \<Rightarrow> heap option" where
  "ordenar_en_sitio h a =
     do {
       xs \<leftarrow> leer_array h a;
       if list_all (\<lambda>x. leer_tienda h x \<noteq> None) xs
       then Some (h[a := ObjArray (js_sort (\<lambda>x y. js_sub (combis_en h y) (combis_en h x)) xs)])
       else None
     }"

text \<open>
  \<^verbatim>\<open>vehiculos.map(...)\<close>: for each vehicle a new empty array \<^verbatim>\<open>[]\<close> and a new route object
  that points to it.
\<close>

fun crear_rutas :: "heap \<Rightarrow> nat list \<Rightarrow> (heap \<times> nat list) option" where
  "crear_rutas h [] = Some (h, [])"
| "crear_rutas h (v # vs) =
     do {
       vehiculo \<leftarrow> leer_vehiculo h v;
       let (h1, arr) = alloc (ObjArray []) h;
       let (h2, r) = alloc (ObjRuta
             \<lparr> vehiculo_id = id_vehiculo vehiculo,
               vehiculo_nombre = nombre_corto vehiculo,
               capacidad_maxima = num (capacidad_combis vehiculo),
               capacidad_usada = Fin 0,
               tiendas = arr,
               eficiencia = Fin 0 \<rparr>) h1;
       (h3, rs) \<leftarrow> crear_rutas h2 vs;
       Some (h3, r # rs)
     }"

text \<open>
  The inner loop for the store row at address \<open>t\<close> over the routes at the given addresses:
  \<^verbatim>\<open>push\<close> writes the array of the route, the two assignments write the route object.
\<close>

fun asignar_h :: "nat \<Rightarrow> heap \<Rightarrow> nat list \<Rightarrow> heap option" where
  "asignar_h t h [] = Some h"
| "asignar_h t h (r # rs) =
     do {
       ruta \<leftarrow> leer_ruta h r;
       tienda \<leftarrow> leer_tienda h t;
       if js_le (suma_carga (capacidad_usada ruta) tienda) (capacidad_maxima ruta)
       then do {
         xs \<leftarrow> leer_array h (tiendas ruta);
         let h1 = h[tiendas ruta := ObjArray (xs @ [t])];
         Some (h1[r := ObjRuta (ruta
           \<lparr> capacidad_usada := suma_carga (capacidad_usada ruta) tienda,
             eficiencia :=
               porcentaje (suma_carga (capacidad_usada ruta) tienda)
                 (capacidad_maxima ruta) \<rparr>)])
       }
       else asignar_h t h rs
     }"

fun forEach_asignar :: "heap \<Rightarrow> nat list \<Rightarrow> nat list \<Rightarrow> heap option" where
  "forEach_asignar h [] rs = Some h"
| "forEach_asignar h (t # ts) rs =
     do { h1 \<leftarrow> asignar_h t h rs; forEach_asignar h1 ts rs }"

text \<open>\<^verbatim>\<open>rutas.filter(ruta => ruta.tiendas.length > 0)\<close>.\<close>

fun filtrar_con_tiendas :: "heap \<Rightarrow> nat list \<Rightarrow> nat list option" where
  "filtrar_con_tiendas h [] = Some []"
| "filtrar_con_tiendas h (r # rs) =
     do {
       ruta \<leftarrow> leer_ruta h r;
       xs \<leftarrow> leer_array h (tiendas ruta);
       ys \<leftarrow> filtrar_con_tiendas h rs;
       Some (if length xs > 0 then r # ys else ys)
     }"

text \<open>
  The function: the addresses of the two argument arrays in, the new heap and the
  address of the returned array out.
\<close>

definition optimizarRutasBasico_h :: "heap \<Rightarrow> nat \<Rightarrow> nat \<Rightarrow> (heap \<times> nat) option" where
  "optimizarRutasBasico_h h tiendas_ref vehiculos_ref =
     do {
       ts \<leftarrow> leer_array h tiendas_ref;
       let (h1, copia) = alloc (ObjArray ts) h;
       h2 \<leftarrow> ordenar_en_sitio h1 copia;
       vs \<leftarrow> leer_array h2 vehiculos_ref;
       (h3, rs) \<leftarrow> crear_rutas h2 vs;
       let (h4, rutas) = alloc (ObjArray rs) h3;
       ordenadas \<leftarrow> leer_array h4 copia;
       rutas_de \<leftarrow> leer_array h4 rutas;
       h5 \<leftarrow> forEach_asignar h4 ordenadas rutas_de;
       rutas_de \<leftarrow> leer_array h5 rutas;
       con_tiendas \<leftarrow> filtrar_con_tiendas h5 rutas_de;
       Some (alloc (ObjArray con_tiendas) h5)
     }"

text \<open>
  Reading by value what an address stands for: a route with the rows of its stores, an
  array of routes, an array of store rows, an array of vehicle rows.
\<close>

definition ver_ruta :: "heap \<Rightarrow> nat \<Rightarrow> ruta option" where
  "ver_ruta h r =
     do {
       ruta \<leftarrow> leer_ruta h r;
       xs \<leftarrow> leer_array h (tiendas ruta);
       ts \<leftarrow> those (map (leer_tienda h) xs);
       Some \<lparr> vehiculo_id = vehiculo_id ruta,
              vehiculo_nombre = vehiculo_nombre ruta,
              capacidad_maxima = capacidad_maxima ruta,
              capacidad_usada = capacidad_usada ruta,
              tiendas = ts,
              eficiencia = eficiencia ruta \<rparr>
     }"

definition ver_rutas :: "heap \<Rightarrow> nat \<Rightarrow> ruta list option" where
  "ver_rutas h a = do { rs \<leftarrow> leer_array h a; those (map (ver_ruta h) rs) }"

definition ver_tiendas :: "heap \<Rightarrow> nat \<Rightarrow> tienda list option" where
  "ver_tiendas h a = do { xs \<leftarrow> leer_array h a; those (map (leer_tienda h) xs) }"

definition ver_vehiculos :: "heap \<Rightarrow> nat \<Rightarrow> vehiculo list option" where
  "ver_vehiculos h a = do { xs \<leftarrow> leer_array h a; those (map (leer_vehiculo h) xs) }"

text \<open>
  \<^verbatim>\<open>calcularMetricas\<close> reads the routes (here by value, with the rows in their arrays,
  of which the code takes only the count) and returns a new object; it has no
  assignment to anything but its local variables.
\<close>

definition calcularMetricas_h :: "heap \<Rightarrow> nat \<Rightarrow> nat \<Rightarrow> (heap \<times> nat) option" where
  "calcularMetricas_h h rutas_ref totalTiendas =
     do {
       rutas \<leftarrow> ver_rutas h rutas_ref;
       Some (alloc (ObjMetricas (calcularMetricas rutas totalTiendas)) h)
     }"

text \<open>
  The address of the array of a route; two heaps that agree outside a set of
  addresses; a heap that keeps the first \<open>n\<close> cells of another.
\<close>

definition arr_de :: "heap \<Rightarrow> nat \<Rightarrow> nat" where
  "arr_de h r = (case leer_ruta h r of Some ruta \<Rightarrow> tiendas ruta | None \<Rightarrow> 0)"

definition igual_fuera :: "nat set \<Rightarrow> heap \<Rightarrow> heap \<Rightarrow> bool" where
  "igual_fuera A h h' \<longleftrightarrow> length h' = length h \<and> (\<forall>a. a \<notin> A \<longrightarrow> h' ! a = h ! a)"

definition conserva :: "nat \<Rightarrow> heap \<Rightarrow> heap \<Rightarrow> bool" where
  "conserva n h h' \<longleftrightarrow> n \<le> length h \<and> length h \<le> length h' \<and> take n h' = take n h"

section \<open>Example inputs\<close>

text \<open>A store row and a vehicle row with the given identifier and load figure.\<close>

definition tienda_de :: "string \<Rightarrow> rat \<Rightarrow> tienda" where
  "tienda_de i d =
     \<lparr> tienda_id = i, codigo = i, nombre = i, combis_promedio = d, provincia = [] \<rparr>"

definition vehiculo_de :: "string \<Rightarrow> rat \<Rightarrow> vehiculo" where
  "vehiculo_de i c =
     \<lparr> id_vehiculo = i, numero_camion = 1, nombre_corto = i, tipo_pago = [],
       capacidad_combis = c \<rparr>"

text \<open>The two-bin example of the specification: demands 8, 5, 5, 2 and two vehicles of 10.\<close>

definition ejemplo_tiendas :: "tienda list" where
  "ejemplo_tiendas =
     [tienda_de ''t1'' 8, tienda_de ''t2'' 5, tienda_de ''t3'' 5, tienda_de ''t4'' 2]"

definition ejemplo_vehiculos :: "vehiculo list" where
  "ejemplo_vehiculos = [vehiculo_de ''A'' 10, vehiculo_de ''B'' 10]"

text \<open>
  A heap with two store rows, one vehicle row, the two argument arrays (at 3 and 4), and a
  route with its array and an array of routes (at 7) as an earlier call could have left
  them.
\<close>

definition heap_ej :: heap where
  "heap_ej =
     [ObjTienda (tienda_de ''t1'' 2), ObjTienda (tienda_de ''t2'' 8),
      ObjVehiculo (vehiculo_de ''A'' 10),
      ObjArray [0, 1], ObjArray [2],
      ObjArray [1],
      ObjRuta \<lparr> vehiculo_id = ''A'', vehiculo_nombre = ''A'', capacidad_maxima = Fin 10,
                capacidad_usada = Fin 8, tiendas = 5, eficiencia = Fin 80 \<rparr>,
      ObjArray [6]]"

text \<open>A heap with one store row, the array of stores (at 1) and an empty array of vehicles
  (at 2).\<close>

definition heap_sin_vehiculos :: heap where
  "heap_sin_vehiculos = [ObjTienda (tienda_de ''t1'' 5), ObjArray [0], ObjArray []]"

section \<open>Properties of the rounding\<close>

lemma pot2_pos: "0 < pot2 e"
  by (simp add: pot2_def)

lemma pot2_add: "pot2 (a + b) = pot2 a * pot2 b"
  by (simp add: pot2_def power_int_add)

lemma pot2_mono: "a \<le> b \<Longrightarrow> pot2 a \<le> pot2 b"
  by (simp add: pot2_def power_int_increasing)

lemma pot2_strict_mono: "a < b \<Longrightarrow> pot2 a < pot2 b"
  by (simp add: pot2_def power_int_strict_increasing)

lemma pot2_nat: "pot2 (int n) = 2 ^ n"
  by (simp add: pot2_def)

lemma pot2_minus: "pot2 (- e) = 1 / pot2 e"
  by (simp add: pot2_def power_int_minus divide_inverse)

lemma pot2_Suc: "pot2 (e + 1) = 2 * pot2 e"
  using pot2_add[of e 1] by (simp add: pot2_def)

text \<open>The exponent brackets its argument, and is the only integer that does.\<close>

lemma bitlen_pot2:
  assumes "0 < p"
  shows "pot2 (bitlen p - 1) \<le> of_int p" and "of_int p < pot2 (bitlen p)"
proof -
  from bitlen_bounds[OF assms] have "2 ^ nat (bitlen p - 1) \<le> p" "p < 2 ^ nat (bitlen p)"
    by simp_all
  then have 1: "(2::rat) ^ nat (bitlen p - 1) \<le> of_int p" "of_int p < (2::rat) ^ nat (bitlen p)"
    by (metis of_int_le_iff of_int_numeral of_int_power,
        metis of_int_less_iff of_int_numeral of_int_power)
  from assms have bp: "1 \<le> bitlen p" by (simp add: bitlen_alt_def)
  show "pot2 (bitlen p - 1) \<le> of_int p"
    using 1(1) bp pot2_nat[of "nat (bitlen p - 1)"] by simp
  show "of_int p < pot2 (bitlen p)"
    using 1(2) bp pot2_nat[of "nat (bitlen p)"] by simp
qed

lemma exponente_bounds:
  assumes "0 < x"
  shows "pot2 (exponente x) \<le> x" and "x < pot2 (exponente x + 1)"
proof -
  obtain p q where pq: "quotient_of x = (p, q)" by (cases "quotient_of x")
  then have q: "0 < q" and x: "x = of_int p / of_int q"
    by (rule quotient_of_denom_pos, rule quotient_of_div)
  from assms x q have p: "0 < p" by (simp add: zero_less_divide_iff)
  let ?d = "bitlen p - bitlen q"
  note bp = bitlen_pot2[OF p] and bq = bitlen_pot2[OF q]
  have lo: "pot2 (?d - 1) \<le> x"
  proof -
    have "pot2 (?d - 1) = pot2 (bitlen p - 1) * pot2 (- bitlen q)"
      using pot2_add[of "bitlen p - 1" "- bitlen q"] by (simp add: algebra_simps)
    also have "\<dots> = pot2 (bitlen p - 1) / pot2 (bitlen q)"
      by (simp add: pot2_minus)
    also have "\<dots> \<le> of_int p / of_int q"
      using bp(1) bq(2) q pot2_pos[of "bitlen p - 1"]
      by (intro frac_le) simp_all
    finally show ?thesis using x by simp
  qed
  have hi: "x < pot2 (?d + 1)"
  proof -
    have "of_int p / of_int q < pot2 (bitlen p) / pot2 (bitlen q - 1)"
      using bp(2) bq(1) p pot2_pos[of "bitlen q - 1"]
      by (intro frac_less) simp_all
    also have "\<dots> = pot2 (bitlen p) * pot2 (- (bitlen q - 1))"
      by (simp only: pot2_minus[of "bitlen q - 1"] times_divide_eq_right mult_1_right)
    also have "\<dots> = pot2 (?d + 1)"
      using pot2_add[of "bitlen p" "- (bitlen q - 1)"] by (simp add: algebra_simps)
    finally show ?thesis using x by simp
  qed
  show "pot2 (exponente x) \<le> x"
    using lo by (simp add: exponente_def pq Let_def)
  show "x < pot2 (exponente x + 1)"
    using hi by (simp add: exponente_def pq Let_def not_le)
qed

lemma exponente_unique:
  assumes "pot2 e \<le> x" and "x < pot2 (e + 1)"
  shows "exponente x = e"
proof -
  from assms(1) pot2_pos[of e] have x: "0 < x" by simp
  note b = exponente_bounds[OF x]
  have "pot2 e < pot2 (exponente x + 1)" using assms(1) b(2) by simp
  then have 1: "e < exponente x + 1"
    by (metis pot2_mono not_le)
  have "pot2 (exponente x) < pot2 (e + 1)" using assms(2) b(1) by simp
  then have 2: "exponente x < e + 1"
    by (metis pot2_mono not_le)
  from 1 2 show ?thesis by simp
qed

text \<open>Rounding to the nearest integer.\<close>

lemma redondeo_par_I:
  assumes "of_int n - 1 / 2 < q" and "q < of_int n + 1 / 2"
  shows "redondeo_par q = n"
proof (cases "of_int n \<le> q")
  case True
  with assms(2) have "\<lfloor>q\<rfloor> = n" by (simp add: floor_eq_iff)
  with assms(2) show ?thesis by (simp add: redondeo_par_def Let_def)
next
  case False
  with assms(1) have f: "\<lfloor>q\<rfloor> = n - 1" by (simp add: floor_eq_iff)
  from assms(1) have "1 / 2 < q - of_int (n - 1)" by simp
  with f show ?thesis by (simp add: redondeo_par_def Let_def)
qed

lemma redondeo_par_tie:
  assumes "q = of_int n + 1 / 2"
  shows "redondeo_par q = (if even n then n else n + 1)"
proof -
  from assms have "\<lfloor>q\<rfloor> = n" by (simp add: floor_eq_iff)
  with assms show ?thesis by (simp add: redondeo_par_def Let_def)
qed

lemma redondeo_par_of_int: "redondeo_par (of_int n) = n"
  by (rule redondeo_par_I) simp_all

lemma redondeo_par_ge:
  assumes "1 \<le> q"
  shows "1 \<le> redondeo_par q"
proof -
  from assms have "1 \<le> \<lfloor>q\<rfloor>" by simp
  then show ?thesis by (simp add: redondeo_par_def Let_def)
qed

lemma redondeo_par_nonneg:
  assumes "0 \<le> q"
  shows "0 \<le> redondeo_par q"
proof -
  from assms have "0 \<le> \<lfloor>q\<rfloor>" by simp
  then show ?thesis by (simp add: redondeo_par_def Let_def)
qed

lemma rnd_pos_cases:
  obtains "rnd_pos x = PosInf"
  | "rnd_pos x = Fin (redondear_a (max (- 1022) (exponente x)) x)"
      "redondear_a (max (- 1022) (exponente x)) x < pot2 1024"
  by (cases "pot2 1024 \<le> redondear_a (max (- 1022) (exponente x)) x")
    (simp_all add: rnd_pos_def Let_def)

lemma redondear_a_exact:
  assumes "x / pot2 (e - 52) = of_int m"
  shows "redondear_a e x = x"
proof -
  have "pot2 (e - 52) \<noteq> 0" using pot2_pos[of "e - 52"] by simp
  then have "x / pot2 (e - 52) * pot2 (e - 52) = x" by simp
  then show ?thesis by (simp add: redondear_a_def assms redondeo_par_of_int del: of_int_mult)
qed

lemma ulp_le:
  assumes "pot2 (- 1074) \<le> z"
  shows "pot2 (max (- 1022) (exponente z) - 52) \<le> z"
proof (cases "exponente z \<le> - 1022")
  case True
  then have "max (- 1022) (exponente z) - 52 = - 1074" by simp
  with assms show ?thesis by simp
next
  case False
  then have m: "max (- 1022) (exponente z) = exponente z" by simp
  from assms pot2_pos[of "- 1074"] have "0 < z" by simp
  then have "pot2 (exponente z) \<le> z" by (rule exponente_bounds)
  moreover have "pot2 (exponente z - 52) \<le> pot2 (exponente z)" by (rule pot2_mono) simp
  ultimately show ?thesis using m by simp
qed

text \<open>A number of at least the smallest positive binary64 value does not round to zero.\<close>

lemma rnd_pos_positive:
  assumes "pot2 (- 1074) \<le> z"
  shows "rnd_pos z = PosInf \<or> (\<exists>w. rnd_pos z = Fin w \<and> 0 < w)"
proof -
  let ?u = "pot2 (max (- 1022) (exponente z) - 52)"
  have u: "0 < ?u" by (rule pot2_pos)
  from assms have "?u \<le> z" by (rule ulp_le)
  with u have "1 \<le> z / ?u" by simp
  then have "1 \<le> redondeo_par (z / ?u)" by (rule redondeo_par_ge)
  then have "(1::rat) \<le> of_int (redondeo_par (z / ?u))" by simp
  with u have "0 < of_int (redondeo_par (z / ?u)) * ?u" by simp
  then have "0 < redondear_a (max (- 1022) (exponente z)) z" by (simp add: redondear_a_def)
  then show ?thesis by (cases z rule: rnd_pos_cases) auto
qed

lemma rnd_pos_range:
  assumes "0 < z" and "rnd_pos z = Fin w"
  shows "0 \<le> w \<and> w < pot2 1024"
proof -
  let ?u = "pot2 (max (- 1022) (exponente z) - 52)"
  have u: "0 < ?u" by (rule pot2_pos)
  with assms(1) have "0 \<le> z / ?u" by simp
  then have "0 \<le> redondeo_par (z / ?u)" by (rule redondeo_par_nonneg)
  then have "(0::rat) \<le> of_int (redondeo_par (z / ?u))" by simp
  with u have "0 \<le> of_int (redondeo_par (z / ?u)) * ?u" by simp
  then have "0 \<le> redondear_a (max (- 1022) (exponente z)) z" by (simp add: redondear_a_def)
  with assms(2) show ?thesis by (cases z rule: rnd_pos_cases) auto
qed

text \<open>Every finite result is a multiple of the smallest positive binary64 value.\<close>

lemma rnd_pos_grid:
  assumes "rnd_pos z = Fin w"
  shows "w * pot2 1074 \<in> \<int>"
proof -
  let ?e = "max (- 1022) (exponente z)"
  from assms have w: "w = of_int (redondeo_par (z / pot2 (?e - 52))) * pot2 (?e - 52)"
    by (cases z rule: rnd_pos_cases) (auto simp: redondear_a_def)
  have "0 \<le> ?e + 1022" by simp
  then obtain n where n: "?e + 1022 = int n" using nonneg_int_cases by blast
  have "pot2 (?e - 52) * pot2 1074 = pot2 (?e + 1022)"
    using pot2_add[of "?e - 52" 1074] by (simp add: algebra_simps)
  also have "\<dots> = 2 ^ n" unfolding n by (rule pot2_nat)
  finally have "w * pot2 1074 = of_int (redondeo_par (z / pot2 (?e - 52))) * 2 ^ n"
    unfolding w by (simp add: mult.assoc)
  then show ?thesis by simp
qed

lemma rnd64_not_NaN: "rnd64 x \<noteq> NaN"
proof -
  have 1: "rnd_pos z \<noteq> NaN" for z by (cases z rule: rnd_pos_cases) auto
  then have "js_neg (rnd_pos z) \<noteq> NaN" for z by (cases "rnd_pos z") auto
  with 1 show ?thesis by (simp add: rnd64_def)
qed

lemma rnd64_Fin:
  assumes "rnd64 x = Fin u"
  shows "u * pot2 1074 \<in> \<int>" and "- pot2 1024 < u" and "u < pot2 1024"
proof -
  have p: "0 < pot2 1024" by (rule pot2_pos)
  consider "x = 0" | "0 < x" | "x < 0" by linarith
  then have "u * pot2 1074 \<in> \<int> \<and> - pot2 1024 < u \<and> u < pot2 1024"
  proof cases
    case 1
    with assms p show ?thesis by (simp add: rnd64_def)
  next
    case 2
    with assms have r: "rnd_pos x = Fin u" by (simp add: rnd64_def)
    from rnd_pos_grid[OF r] rnd_pos_range[OF 2 r] p show ?thesis by simp
  next
    case 3
    with assms have "js_neg (rnd_pos (- x)) = Fin u" by (simp add: rnd64_def)
    then have r: "rnd_pos (- x) = Fin (- u)" by (cases "rnd_pos (- x)") auto
    from 3 have "0 < - x" by simp
    from rnd_pos_grid[OF r] rnd_pos_range[OF this r] p show ?thesis
      by (simp add: Ints_minus)
  qed
  then show "u * pot2 1074 \<in> \<int>" and "- pot2 1024 < u" and "u < pot2 1024" by simp_all
qed

lemma grid_pos:
  assumes "z * pot2 1074 \<in> \<int>" and "0 < z"
  shows "pot2 (- 1074) \<le> z"
proof -
  from assms(1) obtain k :: int where k: "z * pot2 1074 = of_int k" by (auto elim: Ints_cases)
  have p: "0 < pot2 1074" by (rule pot2_pos)
  with assms(2) have "0 < z * pot2 1074" by simp
  with k have "(0::rat) < of_int k" by simp
  then have "1 \<le> k" by simp
  then have "(1::rat) \<le> of_int k" by simp
  with k have "1 \<le> z * pot2 1074" by simp
  with p have "1 / pot2 1074 \<le> z" by (simp add: pos_divide_le_eq)
  then show ?thesis by (simp only: pot2_minus)
qed

text \<open>
  A difference of two binary64 values is a multiple of the smallest positive one, so
  rounding it keeps its sign: the difference is rounded to zero only when it is zero.
\<close>

lemma rnd64_signo:
  assumes "z * pot2 1074 \<in> \<int>"
  shows "no_positivo (rnd64 z) \<longleftrightarrow> z \<le> 0" and "es_cero (rnd64 z) \<longleftrightarrow> z = 0"
proof -
  consider "z = 0" | "0 < z" | "z < 0" by linarith
  then have "(no_positivo (rnd64 z) \<longleftrightarrow> z \<le> 0) \<and> (es_cero (rnd64 z) \<longleftrightarrow> z = 0)"
  proof cases
    case 1
    then show ?thesis by (simp add: rnd64_def)
  next
    case 2
    with assms have "pot2 (- 1074) \<le> z" by (rule grid_pos)
    from rnd_pos_positive[OF this] 2 show ?thesis by (auto simp: rnd64_def)
  next
    case 3
    then have n: "0 < - z" by simp
    from assms have "(- z) * pot2 1074 \<in> \<int>" by (simp add: Ints_minus)
    then have "pot2 (- 1074) \<le> - z" using n by (rule grid_pos)
    from rnd_pos_positive[OF this] 3 show ?thesis by (auto simp: rnd64_def)
  qed
  then show "no_positivo (rnd64 z) \<longleftrightarrow> z \<le> 0" and "es_cero (rnd64 z) \<longleftrightarrow> z = 0" by simp_all
qed

text \<open>
  The comparator of the program on two numbers it has read: it never returns a number
  that \<^verbatim>\<open>sort\<close> reads against the order of the two, and it returns zero (or NaN, for two
  equal infinities) only on equal numbers.
\<close>

lemma js_sub_signo:
  "no_positivo (js_sub (rnd64 y) (rnd64 x)) \<longleftrightarrow> valor (rnd64 y) \<le> valor (rnd64 x)"
  "es_cero (js_sub (rnd64 y) (rnd64 x)) \<longleftrightarrow> valor (rnd64 y) = valor (rnd64 x)"
proof -
  have p: "0 < pot2 1024" by (rule pot2_pos)
  have "(no_positivo (js_sub (rnd64 y) (rnd64 x)) \<longleftrightarrow> valor (rnd64 y) \<le> valor (rnd64 x)) \<and>
        (es_cero (js_sub (rnd64 y) (rnd64 x)) \<longleftrightarrow> valor (rnd64 y) = valor (rnd64 x))"
  proof (cases "rnd64 y")
    case (Fin v)
    note fy = rnd64_Fin[OF Fin]
    show ?thesis
    proof (cases "rnd64 x")
      case (Fin u)
      note fx = rnd64_Fin[OF Fin]
      have "(v - u) * pot2 1074 = v * pot2 1074 - u * pot2 1074" by (simp add: algebra_simps)
      with fy(1) fx(1) have "(v - u) * pot2 1074 \<in> \<int>" by simp
      from rnd64_signo[OF this] Fin \<open>rnd64 y = Fin v\<close> show ?thesis by simp
    next
      case PosInf
      with Fin fy show ?thesis by simp
    next
      case NegInf
      with Fin fy show ?thesis by simp
    next
      case NaN
      then show ?thesis by (simp add: rnd64_not_NaN)
    qed
  next
    case PosInf
    show ?thesis
    proof (cases "rnd64 x")
      case (Fin u)
      with PosInf rnd64_Fin[OF Fin] show ?thesis by simp
    next
      case NaN
      then show ?thesis by (simp add: rnd64_not_NaN)
    qed (use PosInf p in simp_all)
  next
    case NegInf
    show ?thesis
    proof (cases "rnd64 x")
      case (Fin u)
      with NegInf rnd64_Fin[OF Fin] show ?thesis by simp
    next
      case NaN
      then show ?thesis by (simp add: rnd64_not_NaN)
    qed (use NegInf p in simp_all)
  next
    case NaN
    then show ?thesis by (simp add: rnd64_not_NaN)
  qed
  then show "no_positivo (js_sub (rnd64 y) (rnd64 x)) \<longleftrightarrow> valor (rnd64 y) \<le> valor (rnd64 x)"
    and "es_cero (js_sub (rnd64 y) (rnd64 x)) \<longleftrightarrow> valor (rnd64 y) = valor (rnd64 x)" by simp_all
qed

section \<open>Evaluating the rounding\<close>

text \<open>
  With the exponent \<open>e\<close> and the significand \<open>n\<close> at hand, the rounding of a positive
  number is checked by comparisons.
\<close>

lemma redondear_a_bound:
  assumes x: "x < pot2 (e + 1)" and n: "of_int n \<le> x / pot2 (e - 52) + 1 / 2"
  shows "of_int n * pot2 (e - 52) \<le> pot2 (e + 1)"
proof -
  have u: "0 < pot2 (e - 52)" by (rule pot2_pos)
  have "pot2 (e + 1) = pot2 53 * pot2 (e - 52)"
    using pot2_add[of 53 "e - 52"] by (simp add: algebra_simps)
  with x u have "x / pot2 (e - 52) < pot2 53" by (simp add: pos_divide_less_eq)
  with n have "of_int n < pot2 53 + 1 / 2" by simp
  moreover have "pot2 53 = of_int (2 ^ 53)" using pot2_nat[of 53] by simp
  ultimately have "(of_int n :: rat) < of_int (2 ^ 53) + 1 / 2" by simp
  then have "n \<le> 2 ^ 53"
  proof -
    assume h: "(of_int n :: rat) < of_int (2 ^ 53) + 1 / 2"
    show ?thesis
    proof (rule ccontr)
      assume "\<not> n \<le> 2 ^ 53"
      then have "2 ^ 53 + 1 \<le> n" by simp
      then have "(of_int (2 ^ 53 + 1) :: rat) \<le> of_int n" by (simp only: of_int_le_iff)
      with h show False by simp
    qed
  qed
  then have "(of_int n :: rat) \<le> of_int (2 ^ 53)" by (simp only: of_int_le_iff)
  with \<open>pot2 53 = of_int (2 ^ 53)\<close> have "of_int n \<le> pot2 53" by simp
  with u have "of_int n * pot2 (e - 52) \<le> pot2 53 * pot2 (e - 52)" by simp
  with \<open>pot2 (e + 1) = pot2 53 * pot2 (e - 52)\<close> show ?thesis by simp
qed

lemma rnd_pos_Fin:
  assumes e: "pot2 e \<le> x" "x < pot2 (e + 1)" and lo: "- 1022 \<le> e" and hi: "e \<le> 1022"
    and y: "redondear_a e x = of_int m * pot2 (e - 52)"
    and m: "of_int m \<le> x / pot2 (e - 52) + 1 / 2"
  shows "rnd_pos x = Fin (of_int m * pot2 (e - 52))"
proof -
  from e have ex: "exponente x = e" by (rule exponente_unique)
  with lo have mx: "max (- 1022) (exponente x) = e" by simp
  have "of_int m * pot2 (e - 52) \<le> pot2 (e + 1)" using e(2) m by (rule redondear_a_bound)
  also have "\<dots> < pot2 1024" using hi by (intro pot2_strict_mono) simp
  finally have "\<not> pot2 1024 \<le> redondear_a e x" using y by simp
  then show ?thesis by (simp add: rnd_pos_def Let_def mx y)
qed

lemma rnd64_eval:
  assumes "pot2 e \<le> x" and "x < pot2 (e + 1)" and "- 1022 \<le> e" and "e \<le> 1022"
    and "of_int n - 1 / 2 < x / pot2 (e - 52)" and "x / pot2 (e - 52) < of_int n + 1 / 2"
  shows "rnd64 x = Fin (of_int n * pot2 (e - 52))"
proof -
  from assms(1) pot2_pos[of e] have x: "0 < x" by simp
  have "redondeo_par (x / pot2 (e - 52)) = n" using assms(5,6) by (rule redondeo_par_I)
  then have y: "redondear_a e x = of_int n * pot2 (e - 52)" by (simp add: redondear_a_def)
  from assms(5) have "of_int n \<le> x / pot2 (e - 52) + 1 / 2" by simp
  with assms(1-4) y have "rnd_pos x = Fin (of_int n * pot2 (e - 52))" by (rule rnd_pos_Fin)
  with x show ?thesis by (simp add: rnd64_def)
qed

lemma rnd64_eval_tie:
  assumes "pot2 e \<le> x" and "x < pot2 (e + 1)" and "- 1022 \<le> e" and "e \<le> 1022"
    and "x / pot2 (e - 52) = of_int n + 1 / 2"
  shows "rnd64 x = Fin (of_int (if even n then n else n + 1) * pot2 (e - 52))"
proof -
  from assms(1) pot2_pos[of e] have x: "0 < x" by simp
  have "redondeo_par (x / pot2 (e - 52)) = (if even n then n else n + 1)"
    using assms(5) by (rule redondeo_par_tie)
  then have y: "redondear_a e x = of_int (if even n then n else n + 1) * pot2 (e - 52)"
    by (simp add: redondear_a_def)
  from assms(5) have "of_int (if even n then n else n + 1) \<le> x / pot2 (e - 52) + 1 / 2"
    by simp
  with assms(1-4) y have "rnd_pos x = Fin (of_int (if even n then n else n + 1) * pot2 (e - 52))"
    by (rule rnd_pos_Fin)
  with x show ?thesis by (simp add: rnd64_def)
qed

text \<open>An integer of at most 53 bits is a binary64 value.\<close>

lemma rnd_pos_entero:
  assumes n: "0 < n" "n \<le> 2 ^ 53"
  shows "rnd_pos (of_int n) = Fin (of_int n)"
proof -
  let ?x = "of_int n :: rat"
  let ?e = "exponente ?x"
  from n(1) have x: "0 < ?x" by simp
  note b = exponente_bounds[OF x]
  have p53: "pot2 53 = of_int (2 ^ 53)" using pot2_nat[of 53] by simp
  from n(2) have x53: "?x \<le> pot2 53" unfolding p53 by (simp only: of_int_le_iff)
  from n(1) have "(1::rat) \<le> ?x" by simp
  then have "pot2 0 < pot2 (?e + 1)" using b(2) by (simp add: pot2_def)
  have e0: "0 \<le> ?e"
  proof (rule ccontr)
    assume "\<not> 0 \<le> ?e"
    then have "?e + 1 \<le> 0" by simp
    then have "pot2 (?e + 1) \<le> pot2 0" by (rule pot2_mono)
    with \<open>pot2 0 < pot2 (?e + 1)\<close> show False by simp
  qed
  have "pot2 ?e < pot2 54"
    using b(1) x53 pot2_strict_mono[of 53 54] by simp
  have e53: "?e \<le> 53"
  proof (rule ccontr)
    assume "\<not> ?e \<le> 53"
    then have "54 \<le> ?e" by simp
    then have "pot2 54 \<le> pot2 ?e" by (rule pot2_mono)
    with \<open>pot2 ?e < pot2 54\<close> show False by simp
  qed
  have mx: "max (- 1022) ?e = ?e" using e0 by simp
  have "\<exists>m. ?x / pot2 (?e - 52) = of_int m"
  proof (cases "?e \<le> 52")
    case True
    then obtain k where k: "52 - ?e = int k" using nonneg_int_cases[of "52 - ?e"] by auto
    have "?x / pot2 (?e - 52) = ?x * pot2 (- (?e - 52))"
      unfolding pot2_minus[of "?e - 52"] by simp
    also have "- (?e - 52) = int k" using k by simp
    also have "?x * pot2 (int k) = of_int (n * 2 ^ k)" by (simp add: pot2_nat)
    finally show ?thesis by blast
  next
    case False
    with e53 have e: "?e = 53" by simp
    with b(1) x53 have "?x = pot2 53" by simp
    then have "?x / pot2 (?e - 52) = pot2 53 / pot2 1" using e by simp
    also have "\<dots> = of_int (2 ^ 52)" by (simp add: pot2_def)
    finally show ?thesis by blast
  qed
  then obtain m where "?x / pot2 (?e - 52) = of_int m" by blast
  then have y: "redondear_a ?e ?x = ?x" by (rule redondear_a_exact)
  have "?x < pot2 1024" using x53 pot2_strict_mono[of 53 1024] by simp
  then show ?thesis by (simp add: rnd_pos_def Let_def mx y)
qed

lemma rnd64_entero:
  assumes "\<bar>n\<bar> \<le> 2 ^ 53"
  shows "rnd64 (of_int n) = Fin (of_int n)"
proof -
  consider "n = 0" | "0 < n" | "n < 0" by linarith
  then show ?thesis
  proof cases
    case 1
    then show ?thesis by (simp add: rnd64_def)
  next
    case 2
    with assms have "rnd_pos (of_int n) = Fin (of_int n)" by (intro rnd_pos_entero) simp_all
    with 2 show ?thesis by (simp add: rnd64_def)
  next
    case 3
    with assms have "rnd_pos (of_int (- n)) = Fin (of_int (- n))"
      by (intro rnd_pos_entero) simp_all
    with 3 show ?thesis by (simp add: rnd64_def)
  qed
qed

lemma rnd64_0: "rnd64 0 = Fin 0"
  by (simp add: rnd64_def)

lemma rnd64_1: "rnd64 1 = Fin 1"
  using rnd64_entero[of 1] by simp

lemma rnd64_numeral:
  "(numeral k :: int) \<le> 9007199254740992 \<Longrightarrow> rnd64 (numeral k) = Fin (numeral k)"
  using rnd64_entero[of "numeral k"] by simp

lemma rnd64_neg_numeral:
  "(numeral k :: int) \<le> 9007199254740992 \<Longrightarrow> rnd64 (- numeral k) = Fin (- numeral k)"
  using rnd64_entero[of "- numeral k"] by simp

text \<open>The integers of a program text and the powers of two, for evaluation by rewriting.\<close>

lemmas enteros = rnd64_0 rnd64_1 rnd64_numeral rnd64_neg_numeral

lemma pot2_numeral: "pot2 (numeral k) = 2 ^ numeral k"
  using pot2_nat[of "numeral k"] by simp

lemma pot2_neg_numeral: "pot2 (- numeral k) = 1 / 2 ^ numeral k"
  using pot2_minus[of "numeral k"] by (simp add: pot2_numeral)

lemma pot2_0: "pot2 0 = 1"
  by (simp add: pot2_def)

lemma pot2_1: "pot2 1 = 2"
  by (simp add: pot2_def)

lemma pot2_m1: "pot2 (- 1) = 1 / 2"
  using pot2_minus[of 1] by (simp add: pot2_1)

lemmas potencias = pot2_numeral pot2_neg_numeral pot2_0 pot2_1 pot2_m1

text \<open>Some values that are not binary64 values, and what they round to.\<close>

lemma rnd64_7_25: "rnd64 (7 / 25) = Fin (1261007895663739 / 4503599627370496)"
  using rnd64_eval[of "- 2" "7 / 25" 5044031582654956] by (simp add: potencias)

lemma rnd64_28: "rnd64 (1261007895663739 / 4503599627370496 * 100) =
    Fin (7881299347898369 / 281474976710656)"
  using rnd64_eval[of 4 "1261007895663739 / 4503599627370496 * 100" 7881299347898369]
  by (simp add: potencias)

lemma rnd64_280: "rnd64 (7881299347898369 / 281474976710656 * 10) =
    Fin (4925812092436481 / 17592186044416)"
  using rnd64_eval[of 8 "7881299347898369 / 281474976710656 * 10" 4925812092436481]
  by (simp add: potencias)

lemma rnd64_23_40: "rnd64 (23 / 40) = Fin (2589569785738035 / 4503599627370496)"
  using rnd64_eval[of "- 1" "23 / 40" 5179139571476070] by (simp add: potencias)

lemma rnd64_57: "rnd64 (2589569785738035 / 4503599627370496 * 100) =
    Fin (8092405580431359 / 140737488355328)"
  using rnd64_eval[of 5 "2589569785738035 / 4503599627370496 * 100" 8092405580431359]
  by (simp add: potencias)

lemma rnd64_2_53_1: "rnd64 9007199254740993 = Fin 9007199254740992"
  using rnd64_eval_tie[of 53 9007199254740993 4503599627370496] by (simp add: potencias)

section \<open>Invariants of the assignment loop\<close>

text \<open>
  A property of single routes that loading a store into a route with room preserves
  holds of every route after one store, after all stores, and of the routes returned.
\<close>

lemma asignar_each:
  assumes step: "\<And>r. Q r \<Longrightarrow>
      js_le (suma_carga (capacidad_usada r) t) (capacidad_maxima r) \<Longrightarrow> Q (cargar t r)"
  shows "list_all Q rs \<Longrightarrow> list_all Q (asignar t rs)"
  by (induction rs) (simp_all add: step)

lemma fold_asignar_each:
  assumes step: "\<And>t r. Q r \<Longrightarrow>
      js_le (suma_carga (capacidad_usada r) t) (capacidad_maxima r) \<Longrightarrow> Q (cargar t r)"
  shows "list_all Q rs \<Longrightarrow> list_all Q (fold asignar ts rs)"
proof (induction ts arbitrary: rs)
  case Nil
  then show ?case by simp
next
  case (Cons t ts)
  from Cons.prems have "list_all Q (asignar t rs)"
    by (rule asignar_each[rotated]) (rule step)
  then have "list_all Q (fold asignar ts (asignar t rs))" by (rule Cons.IH)
  then show ?case by simp
qed

lemma optimizar_each:
  assumes step: "\<And>t r. Q r \<Longrightarrow>
      js_le (suma_carga (capacidad_usada r) t) (capacidad_maxima r) \<Longrightarrow> Q (cargar t r)"
    and init: "\<And>v. Q (nueva_ruta v)"
  shows "list_all Q (optimizarRutasBasico ts vs)"
proof -
  have "list_all Q (map nueva_ruta vs)" by (simp add: list_all_iff init)
  then have "list_all Q (fold asignar (tiendasOrdenadas ts) (map nueva_ruta vs))"
    by (rule fold_asignar_each[rotated]) (rule step)
  then show ?thesis
    by (simp add: optimizarRutasBasico_def repartir_def list_all_iff)
qed

lemma optimizar_con_tiendas: "r \<in> set (optimizarRutasBasico ts vs) \<Longrightarrow> tiendas r \<noteq> []"
  by (simp add: optimizarRutasBasico_def repartir_def)

section \<open>The sort\<close>

text \<open>
  The difference of two binary64 values has the sign of their exact difference, so with
  the comparator of the program the model of the sort is the stable sort on the negated
  demand as the program reads it.
\<close>

lemma sort_insert_insort:
  "sort_insert por_combis_desc x ys = insort_key (\<lambda>t. - valor (num (combis_promedio t))) x ys"
  by (induction ys) (simp_all add: por_combis_desc_def num_def js_sub_signo)

lemma tiendasOrdenadas_sort_key:
  "tiendasOrdenadas ts = sort_key (\<lambda>t. - valor (num (combis_promedio t))) ts"
  unfolding tiendasOrdenadas_def js_sort_def sort_key_def
  by (induction ts) (simp_all add: sort_insert_insort)

lemma mset_tiendasOrdenadas: "mset (tiendasOrdenadas ts) = mset ts"
  by (simp add: tiendasOrdenadas_sort_key)

lemma sort_contract_unique:
  assumes "sort_contract por_combis_desc ts ys"
  shows "ys = tiendasOrdenadas ts"
proof -
  let ?f = "\<lambda>t. - valor (num (combis_promedio t))"
  have m: "mset ys = mset ts" using assms by (simp add: sort_contract_def)
  have "(\<lambda>a b. no_positivo (por_combis_desc a b)) = (\<lambda>a b. ?f a \<le> ?f b)"
    by (simp add: por_combis_desc_def num_def js_sub_signo)
  then have s: "sorted (map ?f ys)"
    using assms by (simp add: sort_contract_def sorted_map)
  have st: "filter (\<lambda>x. ?f k = ?f x) ys = filter (\<lambda>x. ?f k = ?f x) ts" if "k \<in> set ys" for k
  proof -
    from that m have "k \<in> set ts" by (metis set_mset_mset)
    with assms have "filter (\<lambda>b. es_cero (por_combis_desc k b)) ys =
        filter (\<lambda>b. es_cero (por_combis_desc k b)) ts"
      by (simp add: sort_contract_def)
    moreover have "(\<lambda>b. es_cero (por_combis_desc k b)) = (\<lambda>x. ?f k = ?f x)"
      by (auto simp: por_combis_desc_def num_def js_sub_signo)
    ultimately show ?thesis by simp
  qed
  have "sort_key ?f ts = ys"
    using m st s by (rule properties_for_sort_key)
  then show ?thesis by (simp add: tiendasOrdenadas_sort_key)
qed

lemma tiendasOrdenadas_contract: "sort_contract por_combis_desc ts (tiendasOrdenadas ts)"
  unfolding sort_contract_def
proof (intro conjI ballI)
  let ?f = "\<lambda>t. - valor (num (combis_promedio t))"
  show "mset (tiendasOrdenadas ts) = mset ts" by (rule mset_tiendasOrdenadas)
  have "(\<lambda>a b. no_positivo (por_combis_desc a b)) = (\<lambda>a b. ?f a \<le> ?f b)"
    by (simp add: por_combis_desc_def num_def js_sub_signo)
  moreover have "sorted (map ?f (tiendasOrdenadas ts))"
    by (simp add: tiendasOrdenadas_sort_key)
  ultimately show "sorted_wrt (\<lambda>a b. no_positivo (por_combis_desc a b)) (tiendasOrdenadas ts)"
    by (simp add: sorted_map)
  fix a
  have "(\<lambda>b. es_cero (por_combis_desc a b)) = (\<lambda>y. ?f y = ?f a)"
    by (auto simp: por_combis_desc_def num_def js_sub_signo)
  then show "filter (\<lambda>b. es_cero (por_combis_desc a b)) (tiendasOrdenadas ts) =
      filter (\<lambda>b. es_cero (por_combis_desc a b)) ts"
    unfolding tiendasOrdenadas_sort_key
    using sort_key_stable[of ?f "?f a" ts] by presburger
qed

section \<open>Evaluation\<close>

text \<open>
  The rewrite rules that run the program on rows of integers, and on rows of decimals
  whose readings and sums are given as facts.
\<close>

lemmas run_defs =
  optimizarRutasBasico_def repartir_def tiendasOrdenadas_def js_sort_def
  por_combis_desc_def nueva_ruta_def cargar_def tienda_de_def vehiculo_de_def
  suma_carga_def num_def enteros

lemmas run_dec =
  optimizarRutasBasico_def repartir_def tiendasOrdenadas_sort_key
  nueva_ruta_def cargar_def tienda_de_def vehiculo_de_def suma_carga_def

text \<open>
  What the program makes of some two-digit decimals: the numbers it reads, and the sums
  it stores for them.
\<close>

lemma num_5_7: "num (57 / 10) = Fin (6417629469002957 / 1125899906842624)"
  unfolding num_def using rnd64_eval[of 2 "57 / 10" 6417629469002957] by (simp add: potencias)

lemma num_4_9: "num (49 / 10) = Fin (2758454771764429 / 562949953421312)"
  unfolding num_def using rnd64_eval[of 2 "49 / 10" 5516909543528858] by (simp add: potencias)

lemma suma_0_5_7: "js_add (Fin 0) (Fin (6417629469002957 / 1125899906842624)) = Fin (6417629469002957 / 1125899906842624)"
proof -
  have "rnd64 (0 + 6417629469002957 / 1125899906842624) = Fin (6417629469002957 / 1125899906842624)"
    using rnd64_eval[of 2 "0 + 6417629469002957 / 1125899906842624" 6417629469002957] by (simp add: potencias)
  then show ?thesis by (simp only: js_add.simps)
qed

lemma suma_5_7_4_9: "js_add (Fin (6417629469002957 / 1125899906842624)) (Fin (2758454771764429 / 562949953421312)) = Fin (1491817376566477 / 140737488355328)"
proof -
  have "rnd64 (6417629469002957 / 1125899906842624 + 2758454771764429 / 562949953421312) = Fin (1491817376566477 / 140737488355328)"
    using rnd64_eval_tie[of 3 "6417629469002957 / 1125899906842624 + 2758454771764429 / 562949953421312" 5967269506265907] by (simp add: potencias)
  then show ?thesis by (simp only: js_add.simps)
qed

lemma num_0_55: "num (11 / 20) = Fin (2476979795053773 / 4503599627370496)"
  unfolding num_def using rnd64_eval[of "- 1" "11 / 20" 4953959590107546] by (simp add: potencias)

lemma num_0_34: "num (17 / 50) = Fin (6124895493223875 / 18014398509481984)"
  unfolding num_def using rnd64_eval[of "- 2" "17 / 50" 6124895493223875] by (simp add: potencias)

lemma num_0_11: "num (11 / 100) = Fin (7926335344172073 / 72057594037927936)"
  unfolding num_def using rnd64_eval[of "- 4" "11 / 100" 7926335344172073] by (simp add: potencias)

lemma suma_0_0_55: "js_add (Fin 0) (Fin (2476979795053773 / 4503599627370496)) = Fin (2476979795053773 / 4503599627370496)"
proof -
  have "rnd64 (0 + 2476979795053773 / 4503599627370496) = Fin (2476979795053773 / 4503599627370496)"
    using rnd64_eval[of "- 1" "0 + 2476979795053773 / 4503599627370496" 4953959590107546] by (simp add: potencias)
  then show ?thesis by (simp only: js_add.simps)
qed

lemma suma_0_55_0_34: "js_add (Fin (2476979795053773 / 4503599627370496)) (Fin (6124895493223875 / 18014398509481984)) = Fin (2004101834179871 / 2251799813685248)"
proof -
  have "rnd64 (2476979795053773 / 4503599627370496 + 6124895493223875 / 18014398509481984) = Fin (2004101834179871 / 2251799813685248)"
    using rnd64_eval_tie[of "- 1" "2476979795053773 / 4503599627370496 + 6124895493223875 / 18014398509481984" 8016407336719483] by (simp add: potencias)
  then show ?thesis by (simp only: js_add.simps)
qed

lemma suma_0_89_0_11: "js_add (Fin (2004101834179871 / 2251799813685248)) (Fin (7926335344172073 / 72057594037927936)) = Fin (4503599627370497 / 4503599627370496)"
proof -
  have "rnd64 (2004101834179871 / 2251799813685248 + 7926335344172073 / 72057594037927936) = Fin (4503599627370497 / 4503599627370496)"
    using rnd64_eval[of 0 "2004101834179871 / 2251799813685248 + 7926335344172073 / 72057594037927936" 4503599627370497] by (simp add: potencias)
  then show ?thesis by (simp only: js_add.simps)
qed

text \<open>\<^verbatim>\<open>Math.round\<close> leaves an integer as it is.\<close>

lemma Math_round_entero: "Math_round (Fin (of_int n)) = Fin (of_int n)"
  by (simp add: floor_eq_iff)

lemma Math_round_numeral: "Math_round (Fin (numeral k)) = Fin (numeral k)"
  using Math_round_entero[of "numeral k"] by simp

lemma Math_round_0: "Math_round (Fin 0) = Fin 0"
  using Math_round_entero[of 0] by simp

text \<open>Some percentages, as the program computes them: a division, then a product, each
  rounded.\<close>

lemma porcentaje_10_10: "porcentaje (Fin 10) (Fin 10) = Fin 100"
  by (simp add: porcentaje_def enteros)

lemma porcentaje_7_25: "porcentaje (Fin 7) (Fin 25) = Fin (7881299347898369 / 281474976710656)"
proof -
  have d: "js_div (Fin 7) (Fin 25) = Fin (1261007895663739 / 4503599627370496)"
    by (simp add: rnd64_7_25)
  have m: "js_mul (Fin (1261007895663739 / 4503599627370496)) (Fin 100) =
      Fin (7881299347898369 / 281474976710656)"
    by (simp only: js_mul.simps rnd64_28)
  show ?thesis unfolding porcentaje_def d m ..
qed

lemma porcentaje_23_40: "porcentaje (Fin 23) (Fin 40) = Fin (8092405580431359 / 140737488355328)"
proof -
  have d: "js_div (Fin 23) (Fin 40) = Fin (2589569785738035 / 4503599627370496)"
    by (simp add: rnd64_23_40)
  have m: "js_mul (Fin (2589569785738035 / 4503599627370496)) (Fin 100) =
      Fin (8092405580431359 / 140737488355328)"
    by (simp only: js_mul.simps rnd64_57)
  show ?thesis unfolding porcentaje_def d m ..
qed

section \<open>The capacity of a route\<close>

text \<open>
  Claim C1: every route that \<^verbatim>\<open>optimizarRutasBasico\<close> returns has a used load that does
  not exceed its capacity. The route was returned, so it holds a store, and the last
  store it took was admitted by the test \<^verbatim>\<open>used + demand <= capacity\<close>, whose left side
  is the very number that was then stored as the used load; the sign preconditions of
  the claim are not needed.
\<close>

theorem capacity_invariant:
  "\<forall>r \<in> set (optimizarRutasBasico ts vs). js_le (capacidad_usada r) (capacidad_maxima r)"
proof -
  let ?Q = "\<lambda>r. tiendas r \<noteq> [] \<longrightarrow> js_le (capacidad_usada r) (capacidad_maxima r)"
  have "list_all ?Q (optimizarRutasBasico ts vs)"
    by (rule optimizar_each) (simp_all add: cargar_def nueva_ruta_def)
  then show ?thesis
    using optimizar_con_tiendas[of _ ts vs] by (simp add: list_all_iff)
qed

theorem capacity_invariant_witness:
  "map capacidad_usada
     (optimizarRutasBasico [tienda_de ''t1'' 4, tienda_de ''t2'' 7] [vehiculo_de ''A'' 10]) = [Fin 7] \<and>
   map capacidad_maxima
     (optimizarRutasBasico [tienda_de ''t1'' 4, tienda_de ''t2'' 7] [vehiculo_de ''A'' 10]) = [Fin 10] \<and>
   list_all (\<lambda>r. js_le (capacidad_usada r) (capacidad_maxima r))
     (optimizarRutasBasico [tienda_de ''t1'' 4, tienda_de ''t2'' 7] [vehiculo_de ''A'' 10])"
  using capacity_invariant[of "[tienda_de ''t1'' 4, tienda_de ''t2'' 7]" "[vehiculo_de ''A'' 10]"]
  by (simp add: run_defs)

section \<open>The used load of a route\<close>

text \<open>
  Claim C10 as stated fails: the used load is not the sum of the demands of the stores
  of the route. Stores of demand 5.7 and 4.9 in a vehicle of capacity 20 give a used
  load of 10.600000000000001: it is neither the sum 10.6 of the two decimals nor the
  sum of the two numbers that the program read for them.
\<close>

theorem used_is_not_exact_sum_counterexample:
  "map capacidad_usada
     (optimizarRutasBasico [tienda_de ''t1'' (57 / 10), tienda_de ''t2'' (49 / 10)]
        [vehiculo_de ''A'' 20]) = [Fin (1491817376566477 / 140737488355328)] \<and>
   map tiendas
     (optimizarRutasBasico [tienda_de ''t1'' (57 / 10), tienda_de ''t2'' (49 / 10)]
        [vehiculo_de ''A'' 20]) = [[tienda_de ''t1'' (57 / 10), tienda_de ''t2'' (49 / 10)]] \<and>
   sum_list (map combis_promedio [tienda_de ''t1'' (57 / 10), tienda_de ''t2'' (49 / 10)]) =
     53 / 5 \<and>
   valor (num (57 / 10)) + valor (num (49 / 10)) = 11934539012531815 / 1125899906842624 \<and>
   Fin (1491817376566477 / 140737488355328) \<noteq> Fin (53 / 5) \<and>
   Fin (1491817376566477 / 140737488355328) \<noteq> Fin (11934539012531815 / 1125899906842624)"
  by (simp add: run_dec num_5_7 num_4_9 suma_0_5_7 suma_5_7_4_9 num_def[of 20] enteros
      del: js_add.simps)

text \<open>
  Claim C10, amended: in every returned route the used load is the result of adding the
  demands of the stores of the route one after the other, in the order of the route's
  list and starting from 0, with the addition of the program, which rounds each partial
  sum. The counter and the list are updated together and only together.
\<close>

theorem used_is_sum_of_items:
  "\<forall>r \<in> set (optimizarRutasBasico ts vs).
     capacidad_usada r = foldl suma_carga (Fin 0) (tiendas r)"
proof -
  let ?Q = "\<lambda>r. capacidad_usada r = foldl suma_carga (Fin 0) (tiendas r)"
  have "list_all ?Q (optimizarRutasBasico ts vs)"
    by (rule optimizar_each) (simp_all add: cargar_def nueva_ruta_def)
  then show ?thesis by (simp add: list_all_iff)
qed

theorem used_is_sum_of_items_witness:
  "map capacidad_usada
     (optimizarRutasBasico [tienda_de ''t1'' 3, tienda_de ''t2'' 6] [vehiculo_de ''A'' 10]) = [Fin 9] \<and>
   map (\<lambda>r. map combis_promedio (tiendas r))
     (optimizarRutasBasico [tienda_de ''t1'' 3, tienda_de ''t2'' 6] [vehiculo_de ''A'' 10]) = [[6, 3]] \<and>
   list_all (\<lambda>r. capacidad_usada r = foldl suma_carga (Fin 0) (tiendas r))
     (optimizarRutasBasico [tienda_de ''t1'' 3, tienda_de ''t2'' 6] [vehiculo_de ''A'' 10])"
  using used_is_sum_of_items[of "[tienda_de ''t1'' 3, tienda_de ''t2'' 6]" "[vehiculo_de ''A'' 10]"]
  by (simp add: run_defs)

section \<open>Determinism\<close>

text \<open>
  Claim C7: the output is determined by the input. The one step of
  \<^verbatim>\<open>optimizarRutasBasico\<close> that is left to the engine is the sort; every result that the
  contract of the sort allows is the list that the model computes, so the routes built
  from it are the same routes, in the same order, with the same stores and loads.
\<close>

theorem deterministic_output:
  "sort_contract por_combis_desc ts (tiendasOrdenadas ts) \<and>
   (\<forall>ys. sort_contract por_combis_desc ts ys \<longrightarrow> repartir ys vs = optimizarRutasBasico ts vs)"
proof (intro conjI allI impI)
  show "sort_contract por_combis_desc ts (tiendasOrdenadas ts)"
    by (rule tiendasOrdenadas_contract)
next
  fix ys
  assume "sort_contract por_combis_desc ts ys"
  then have "ys = tiendasOrdenadas ts" by (rule sort_contract_unique)
  then show "repartir ys vs = optimizarRutasBasico ts vs"
    unfolding optimizarRutasBasico_def by (rule arg_cong)
qed

theorem deterministic_output_witness:
  "sort_contract por_combis_desc [tienda_de ''t1'' 2, tienda_de ''t2'' 8, tienda_de ''t3'' 2]
     [tienda_de ''t2'' 8, tienda_de ''t1'' 2, tienda_de ''t3'' 2] \<and>
   repartir [tienda_de ''t2'' 8, tienda_de ''t1'' 2, tienda_de ''t3'' 2] [vehiculo_de ''A'' 10]
   = optimizarRutasBasico [tienda_de ''t1'' 2, tienda_de ''t2'' 8, tienda_de ''t3'' 2] [vehiculo_de ''A'' 10]"
proof -
  have c: "sort_contract por_combis_desc [tienda_de ''t1'' 2, tienda_de ''t2'' 8, tienda_de ''t3'' 2]
     [tienda_de ''t2'' 8, tienda_de ''t1'' 2, tienda_de ''t3'' 2]"
    by (simp add: sort_contract_def por_combis_desc_def tienda_de_def num_def enteros)
  with deterministic_output[of "[tienda_de ''t1'' 2, tienda_de ''t2'' 8, tienda_de ''t3'' 2]" "[vehiculo_de ''A'' 10]"]
  show ?thesis by blast
qed

section \<open>Refinement of first-fit decreasing\<close>

lemma ffd_place_Cons:
  "ffd_place A d (b # bs) =
     (if ffd_fits A d b then ffd_add A d b # bs else b # ffd_place A d bs)"
proof (cases "ffd_fits A d b")
  case True
  then show ?thesis by (simp add: ffd_place_def)
next
  case False
  then show ?thesis
    by (cases "dropWhile (\<lambda>b. \<not> ffd_fits A d b) bs")
      (simp_all add: ffd_place_def del: dropWhile_eq_Nil_conv)
qed

lemma ffd_place_Nil: "ffd_place A d [] = []"
  by (simp add: ffd_place_def)

lemma asignar_sim:
  "list_all2 (\<lambda>r b. vista_ruta r = vista_bin b) rs bs \<Longrightarrow>
   list_all2 (\<lambda>r b. vista_ruta r = vista_bin b) (asignar t rs) (ffd_place binaria t bs)"
proof (induction rs bs rule: list_all2_induct)
  case Nil
  show ?case by (simp add: ffd_place_Nil)
next
  case (Cons r rs b bs)
  then show ?case
    by (simp add: ffd_place_Cons ffd_fits_def ffd_add_def cargar_def vista_ruta_def
        vista_bin_def binaria_def suma_carga_def)
qed

lemma fold_asignar_sim:
  "list_all2 (\<lambda>r b. vista_ruta r = vista_bin b) rs bs \<Longrightarrow>
   list_all2 (\<lambda>r b. vista_ruta r = vista_bin b)
     (fold asignar ts rs) (fold (ffd_place binaria) ts bs)"
proof (induction ts arbitrary: rs bs)
  case Nil
  then show ?case by simp
next
  case (Cons t ts)
  from Cons.prems
  have "list_all2 (\<lambda>r b. vista_ruta r = vista_bin b) (asignar t rs) (ffd_place binaria t bs)"
    by (rule asignar_sim)
  then show ?case by (simp add: Cons.IH)
qed

lemma filter_sim:
  "list_all2 (\<lambda>r b. vista_ruta r = vista_bin b) rs bs \<Longrightarrow>
   list_all2 (\<lambda>r b. vista_ruta r = vista_bin b)
     (filter (\<lambda>r. length (tiendas r) > 0) rs) (filter (\<lambda>b. bin_items b \<noteq> []) bs)"
proof (induction rs bs rule: list_all2_induct)
  case Nil
  show ?case by simp
next
  case (Cons r rs b bs)
  from Cons.hyps(1) have "tiendas r = bin_items b"
    by (simp add: vista_ruta_def vista_bin_def)
  with Cons show ?case by simp
qed

lemma sim_map:
  "list_all2 (\<lambda>r b. vista_ruta r = vista_bin b) rs bs \<Longrightarrow> map vista_ruta rs = map vista_bin bs"
  by (induction rs bs rule: list_all2_induct) simp_all

text \<open>The sort of the specification is a rearrangement, descending, and keeps ties in
  input order.\<close>

lemma ffd_sorted_props:
  "mset (ffd_sorted A ds) = mset ds"
  "sorted_wrt (\<lambda>a b. tamano A a \<ge> tamano A b) (ffd_sorted A ds)"
  "filter (\<lambda>d. tamano A d = k) (ffd_sorted A ds) = filter (\<lambda>d. tamano A d = k) ds"
proof -
  show "mset (ffd_sorted A ds) = mset ds" by (simp add: ffd_sorted_def)
  have "sorted (map (\<lambda>d. - tamano A d) (ffd_sorted A ds))"
    by (simp add: ffd_sorted_def)
  then show "sorted_wrt (\<lambda>a b. tamano A a \<ge> tamano A b) (ffd_sorted A ds)"
    by (simp add: sorted_map)
  have "filter (\<lambda>d. - tamano A d = - k) (ffd_sorted A ds) = filter (\<lambda>d. - tamano A d = - k) ds"
    unfolding ffd_sorted_def by (rule sort_key_stable)
  then show "filter (\<lambda>d. tamano A d = k) (ffd_sorted A ds) = filter (\<lambda>d. tamano A d = k) ds"
    by simp
qed

text \<open>
  Claim C2 as stated fails when the sum of the used load and the demand is the sum of
  the real numbers: stores of demand 0.55, 0.34 and 0.11 and one vehicle of capacity 1.
  First-fit decreasing on the decimals places all three (0.89 + 0.11 does not exceed 1).
  The program computes 0.89 + 0.11 as 1.0000000000000002 and leaves the third store
  unassigned.
\<close>

theorem first_fit_exact_sum_counterexample:
  "map tiendas
     (optimizarRutasBasico
        [tienda_de ''t1'' (11 / 20), tienda_de ''t2'' (17 / 50), tienda_de ''t3'' (11 / 100)]
        [vehiculo_de ''A'' 1]) =
     [[tienda_de ''t1'' (11 / 20), tienda_de ''t2'' (17 / 50)]] \<and>
   map bin_items
     (ffd_allocate exacta
        [tienda_de ''t1'' (11 / 20), tienda_de ''t2'' (17 / 50), tienda_de ''t3'' (11 / 100)]
        [vehiculo_de ''A'' 1]) =
     [[tienda_de ''t1'' (11 / 20), tienda_de ''t2'' (17 / 50), tienda_de ''t3'' (11 / 100)]]"
  by (simp add: run_dec num_0_55 num_0_34 num_0_11 suma_0_0_55 suma_0_55_0_34 suma_0_89_0_11
      num_def[of 1] enteros
      ffd_allocate_def ffd_sorted_def ffd_place_def ffd_fits_def ffd_add_def exacta_def
      del: js_add.simps)

text \<open>
  Claim C2, amended: \<^verbatim>\<open>optimizarRutasBasico\<close> computes first-fit decreasing in the
  arithmetic of the program. The demands and capacities are the binary64 numbers read
  from the rows; the stores are sorted by that number descending, ties in input order;
  each store goes to the first bin, in vehicle input order, for which the binary64 sum
  of the used load and the demand does not exceed the capacity, and that sum is the new
  used load; a store that fits nowhere is left out; the bins with a store are returned
  in vehicle order. Route by route the result carries the same unit, capacity, used
  load and items.
\<close>

theorem first_fit_decreasing:
  "map vista_ruta (optimizarRutasBasico ts vs) = map vista_bin (ffd_allocate binaria ts vs)"
proof -
  let ?R = "\<lambda>r b. vista_ruta r = vista_bin b"
  let ?bs = "map (\<lambda>c. \<lparr> bin_unit = c, bin_used = cero binaria, bin_items = [] \<rparr>) vs"
  have s: "ffd_sorted binaria ts = tiendasOrdenadas ts"
    by (simp add: ffd_sorted_def tiendasOrdenadas_sort_key binaria_def)
  have "list_all2 ?R (map nueva_ruta vs) ?bs"
    by (simp add: list_all2_map1 list_all2_map2 list_all2_same nueva_ruta_def vista_ruta_def
        vista_bin_def binaria_def)
  then have "list_all2 ?R (fold asignar (tiendasOrdenadas ts) (map nueva_ruta vs))
      (fold (ffd_place binaria) (tiendasOrdenadas ts) ?bs)"
    by (rule fold_asignar_sim)
  then have "list_all2 ?R (optimizarRutasBasico ts vs) (ffd_allocate binaria ts vs)"
    unfolding optimizarRutasBasico_def repartir_def ffd_allocate_def s
    by (rule filter_sim)
  then show ?thesis by (rule sim_map)
qed

section \<open>Every store in at most one route\<close>

lemma asignar_items:
  "mset (concat (map tiendas (asignar t rs))) \<subseteq># mset (concat (map tiendas rs)) + {#t#}"
proof (induction rs)
  case Nil
  show ?case by simp
next
  case (Cons r rs)
  show ?case
  proof (cases "js_le (suma_carga (capacidad_usada r) t) (capacidad_maxima r)")
    case True
    then show ?thesis by (simp add: cargar_def)
  next
    case False
    have "mset (tiendas r) + mset (concat (map tiendas (asignar t rs)))
          \<subseteq># mset (tiendas r) + (mset (concat (map tiendas rs)) + {#t#})"
      using Cons.IH by (rule subset_mset.add_left_mono)
    with False show ?thesis by (simp add: ac_simps)
  qed
qed

lemma fold_asignar_items:
  "mset (concat (map tiendas (fold asignar ts rs))) \<subseteq># mset (concat (map tiendas rs)) + mset ts"
proof (induction ts arbitrary: rs)
  case Nil
  then show ?case by simp
next
  case (Cons t ts)
  have "mset (concat (map tiendas (fold asignar ts (asignar t rs))))
        \<subseteq># mset (concat (map tiendas (asignar t rs))) + mset ts"
    by (rule Cons.IH)
  also have "\<dots> \<subseteq># (mset (concat (map tiendas rs)) + {#t#}) + mset ts"
    using asignar_items[of t rs] by (rule subset_mset.add_right_mono)
  finally show ?case by (simp add: ac_simps)
qed

lemma concat_filter_sub: "mset (concat (map f (filter P xs))) \<subseteq># mset (concat (map f xs))"
proof (induction xs)
  case Nil
  show ?case by simp
next
  case (Cons x xs)
  have "mset (concat (map f (filter P xs))) \<subseteq># mset (f x) + mset (concat (map f xs))"
    using Cons.IH by (simp add: subset_mset.add_increasing)
  with Cons.IH show ?case by simp
qed

lemma items_sub: "mset (concat (map tiendas (optimizarRutasBasico ts vs))) \<subseteq># mset ts"
proof -
  have "mset (concat (map tiendas (optimizarRutasBasico ts vs)))
      \<subseteq># mset (concat (map tiendas (fold asignar (tiendasOrdenadas ts) (map nueva_ruta vs))))"
    unfolding optimizarRutasBasico_def repartir_def by (rule concat_filter_sub)
  also have "\<dots> \<subseteq># mset (concat (map tiendas (map nueva_ruta vs))) + mset (tiendasOrdenadas ts)"
    by (rule fold_asignar_items)
  also have "\<dots> = mset ts"
    by (simp add: mset_tiendasOrdenadas nueva_ruta_def comp_def)
  finally show ?thesis .
qed

lemma distinct_sub_mset: "distinct ts \<Longrightarrow> mset zs \<subseteq># mset ts \<Longrightarrow> distinct zs"
  by (metis distinct_append mset_subset_eq_exists_conv ex_mset mset_append mset_eq_imp_distinct_iff)

text \<open>
  Claim C6: each store of the input is in at most one route. Counting occurrences, the
  stores of all the routes together are drawn from the input without repetition: a
  store is in the routes at most as often as it is in the input list. So when the input
  rows are pairwise different, no store is in two routes or twice in one.
\<close>

theorem no_duplication:
  "mset (concat (map tiendas (optimizarRutasBasico ts vs))) \<subseteq># mset ts \<and>
   (distinct ts \<longrightarrow> distinct (concat (map tiendas (optimizarRutasBasico ts vs))))"
  using items_sub[of ts vs] distinct_sub_mset[of ts] by blast

theorem no_duplication_witness:
  "distinct [tienda_de ''t1'' 5, tienda_de ''t2'' 5, tienda_de ''t3'' 9] \<and>
   map (\<lambda>r. map tienda_id (tiendas r))
     (optimizarRutasBasico [tienda_de ''t1'' 5, tienda_de ''t2'' 5, tienda_de ''t3'' 9]
        [vehiculo_de ''A'' 10, vehiculo_de ''B'' 10]) = [[''t3''], [''t1'', ''t2'']] \<and>
   distinct (concat (map tiendas
     (optimizarRutasBasico [tienda_de ''t1'' 5, tienda_de ''t2'' 5, tienda_de ''t3'' 9]
        [vehiculo_de ''A'' 10, vehiculo_de ''B'' 10])))"
  using no_duplication[of "[tienda_de ''t1'' 5, tienda_de ''t2'' 5, tienda_de ''t3'' 9]"
      "[vehiculo_de ''A'' 10, vehiculo_de ''B'' 10]"]
  by (simp add: run_defs)

section \<open>The two-bin example\<close>

lemma ejemplo_rutas:
  "optimizarRutasBasico ejemplo_tiendas ejemplo_vehiculos =
     [\<lparr> vehiculo_id = ''A'', vehiculo_nombre = ''A'', capacidad_maxima = Fin 10,
        capacidad_usada = Fin 10, tiendas = [tienda_de ''t1'' 8, tienda_de ''t4'' 2],
        eficiencia = Fin 100 \<rparr>,
      \<lparr> vehiculo_id = ''B'', vehiculo_nombre = ''B'', capacidad_maxima = Fin 10,
        capacidad_usada = Fin 10, tiendas = [tienda_de ''t2'' 5, tienda_de ''t3'' 5],
        eficiencia = Fin 100 \<rparr>]"
  by (simp add: run_defs ejemplo_tiendas_def ejemplo_vehiculos_def porcentaje_10_10)

text \<open>
  Claim C5: demands 8, 5, 5, 2 and capacities 10, 10. Route A holds the stores of demand
  8 and 2, route B those of demand 5 and 5, both with used load 10; the metrics give a
  fill rate of 100, two vehicles and four stores assigned.
\<close>

theorem two_bin_example:
  "optimizarRutasBasico ejemplo_tiendas ejemplo_vehiculos =
     [\<lparr> vehiculo_id = ''A'', vehiculo_nombre = ''A'', capacidad_maxima = Fin 10,
        capacidad_usada = Fin 10, tiendas = [tienda_de ''t1'' 8, tienda_de ''t4'' 2],
        eficiencia = Fin 100 \<rparr>,
      \<lparr> vehiculo_id = ''B'', vehiculo_nombre = ''B'', capacidad_maxima = Fin 10,
        capacidad_usada = Fin 10, tiendas = [tienda_de ''t2'' 5, tienda_de ''t3'' 5],
        eficiencia = Fin 100 \<rparr>] \<and>
   eficiencia_llenado
     (calcularMetricas (optimizarRutasBasico ejemplo_tiendas ejemplo_vehiculos) 4) = Fin 100 \<and>
   vehiculos_necesarios
     (calcularMetricas (optimizarRutasBasico ejemplo_tiendas ejemplo_vehiculos) 4) = 2 \<and>
   tiendas_asignadas
     (calcularMetricas (optimizarRutasBasico ejemplo_tiendas ejemplo_vehiculos) 4) = Fin 4"
  by (simp add: ejemplo_rutas calcularMetricas_def reduce_sum_def num_nat_def enteros
      Math_round_numeral Let_def del: Math_round.simps)

section \<open>The fill rate\<close>

text \<open>
  Claim C3, at the input where the code departs from it: one store of demand 50 and one
  vehicle of capacity 10. No route is returned, \<^verbatim>\<open>calcularMetricas\<close> divides 0 by 0,
  and \<^verbatim>\<open>eficiencia_llenado\<close> is NaN, where the claim says 0.
\<close>

theorem fill_rate_no_routes_is_NaN:
  "optimizarRutasBasico [tienda_de ''t1'' 50] [vehiculo_de ''A'' 10] = [] \<and>
   eficiencia_llenado
     (calcularMetricas (optimizarRutasBasico [tienda_de ''t1'' 50] [vehiculo_de ''A'' 10]) 1) = NaN"
  by (simp add: run_defs calcularMetricas_def reduce_sum_def Let_def)

text \<open>
  With routes, the fill rate is \<^verbatim>\<open>Math.round\<close> of the product that the program computes,
  which can lie on the other side of a half than the exact percentage: a load of 23 in
  a capacity of 40 is 57.5 percent, the program computes 57.49999999999999 and returns
  57.
\<close>

lemma fill_rate_23_of_40:
  "map capacidad_usada
     (optimizarRutasBasico [tienda_de ''t1'' 23] [vehiculo_de ''A'' 40]) = [Fin 23] \<and>
   map capacidad_maxima
     (optimizarRutasBasico [tienda_de ''t1'' 23] [vehiculo_de ''A'' 40]) = [Fin 40] \<and>
   eficiencia_llenado
     (calcularMetricas (optimizarRutasBasico [tienda_de ''t1'' 23] [vehiculo_de ''A'' 40]) 1) =
     Fin 57"
proof -
  have "\<lfloor>(8092405580431359 :: rat) / 140737488355328 + 1 / 2\<rfloor> = 57"
    by (simp add: floor_eq_iff)
  then have r: "Math_round (Fin (8092405580431359 / 140737488355328)) = Fin 57" by simp
  have "js_mul (js_div (Fin 23) (Fin 40)) (Fin 100) = Fin (8092405580431359 / 140737488355328)"
    using porcentaje_23_40 by (simp only: porcentaje_def)
  then show ?thesis
    by (simp add: run_defs calcularMetricas_def reduce_sum_def r Let_def
        del: Math_round.simps js_div.simps js_mul.simps)
qed

section \<open>The efficiency of a route\<close>

lemma redondear1_28:
  "redondear1 (Fin (7881299347898369 / 281474976710656)) = Fin 28"
proof -
  have m: "js_mul (Fin (7881299347898369 / 281474976710656)) (Fin 10) =
      Fin (4925812092436481 / 17592186044416)"
    by (simp only: js_mul.simps rnd64_280)
  have "\<lfloor>(4925812092436481 :: rat) / 17592186044416 + 1 / 2\<rfloor> = 280"
    by (simp add: floor_eq_iff)
  then have r: "Math_round (Fin (4925812092436481 / 17592186044416)) = Fin 280" by simp
  have "js_div (Fin 280) (Fin 10) = Fin 28" by (simp add: enteros)
  then show ?thesis unfolding redondear1_def m r .
qed

text \<open>
  Claim C4 as stated fails: the field \<^verbatim>\<open>eficiencia\<close> is not rounded. One store of demand
  7 in a vehicle of capacity 25 gives 28.000000000000004, and rounding to one decimal
  would give 28, from the number of the program as from the exact percentage.
\<close>

theorem efficiency_not_rounded_counterexample:
  "optimizarRutasBasico [tienda_de ''t1'' 7] [vehiculo_de ''A'' 25] =
     [\<lparr> vehiculo_id = ''A'', vehiculo_nombre = ''A'', capacidad_maxima = Fin 25,
        capacidad_usada = Fin 7, tiendas = [tienda_de ''t1'' 7],
        eficiencia = Fin (7881299347898369 / 281474976710656) \<rparr>] \<and>
   redondear1 (Fin (7881299347898369 / 281474976710656)) = Fin 28 \<and>
   redondear1 (Fin (100 * 7 / 25)) = Fin 28 \<and>
   Fin (7881299347898369 / 281474976710656) \<noteq> Fin 28"
proof -
  have "redondear1 (Fin 28) = Fin 28"
    by (simp add: redondear1_def enteros Math_round_numeral del: Math_round.simps)
  then have "redondear1 (Fin (100 * 7 / 25)) = Fin 28" by simp
  then show ?thesis
    by (simp add: run_defs porcentaje_7_25 redondear1_28)
qed

text \<open>
  Claim C4, amended: in every returned route whose capacity is not 0, \<^verbatim>\<open>eficiencia\<close> is
  the number that the program computes for \<^verbatim>\<open>(used / capacity) * 100\<close>, the quotient and
  the product each rounded to the nearest binary64 value, and not rounded to one
  decimal.
\<close>

theorem efficiency_unrounded:
  "\<forall>r \<in> set (optimizarRutasBasico ts vs). capacidad_maxima r \<noteq> Fin 0 \<longrightarrow>
     eficiencia r = porcentaje (capacidad_usada r) (capacidad_maxima r)"
proof -
  let ?Q = "\<lambda>r. tiendas r \<noteq> [] \<longrightarrow>
    eficiencia r = porcentaje (capacidad_usada r) (capacidad_maxima r)"
  have "list_all ?Q (optimizarRutasBasico ts vs)"
    by (rule optimizar_each) (simp_all add: cargar_def nueva_ruta_def)
  then show ?thesis
    using optimizar_con_tiendas[of _ ts vs] by (simp add: list_all_iff)
qed

theorem efficiency_unrounded_witness:
  "map capacidad_maxima (optimizarRutasBasico [tienda_de ''t1'' 23] [vehiculo_de ''A'' 40]) = [Fin 40] \<and>
   map capacidad_usada (optimizarRutasBasico [tienda_de ''t1'' 23] [vehiculo_de ''A'' 40]) = [Fin 23] \<and>
   map eficiencia (optimizarRutasBasico [tienda_de ''t1'' 23] [vehiculo_de ''A'' 40]) =
     [Fin (8092405580431359 / 140737488355328)]"
  using efficiency_unrounded[of "[tienda_de ''t1'' 23]" "[vehiculo_de ''A'' 40]"]
  by (simp add: run_defs porcentaje_23_40)

text \<open>
  A vehicle of capacity 0 takes a store of demand 0, and the efficiency of its route is
  0 / 0, which is NaN.
\<close>

lemma efficiency_zero_capacity_is_NaN:
  "map eficiencia (optimizarRutasBasico [tienda_de ''t1'' 0] [vehiculo_de ''A'' 0]) = [NaN]"
  by (simp add: run_defs porcentaje_def)

section \<open>The program on the heap\<close>

lemma leer_tienda_Some: "leer_tienda h a = Some t \<longleftrightarrow> a < length h \<and> h ! a = ObjTienda t"
  by (auto simp: leer_tienda_def leer_def split: cell.splits)

lemma leer_vehiculo_Some: "leer_vehiculo h a = Some v \<longleftrightarrow> a < length h \<and> h ! a = ObjVehiculo v"
  by (auto simp: leer_vehiculo_def leer_def split: cell.splits)

lemma leer_ruta_Some: "leer_ruta h a = Some r \<longleftrightarrow> a < length h \<and> h ! a = ObjRuta r"
  by (auto simp: leer_ruta_def leer_def split: cell.splits)

lemma leer_array_Some: "leer_array h a = Some xs \<longleftrightarrow> a < length h \<and> h ! a = ObjArray xs"
  by (auto simp: leer_array_def leer_def split: cell.splits)

lemma those_map_Some:
  "those (map f xs) = Some ys \<longleftrightarrow> list_all2 (\<lambda>x y. f x = Some y) xs ys"
proof (induction xs arbitrary: ys)
  case Nil
  show ?case by auto
next
  case (Cons x xs)
  show ?case
    by (cases ys) (auto simp: Cons.IH split: option.splits)
qed

lemma ver_ruta_Some:
  "ver_ruta h r = Some p \<longleftrightarrow>
     (\<exists>ruta xs. leer_ruta h r = Some ruta \<and> leer_array h (tiendas ruta) = Some xs \<and>
        list_all2 (\<lambda>x t. leer_tienda h x = Some t) xs (tiendas p) \<and>
        vehiculo_id p = vehiculo_id ruta \<and> vehiculo_nombre p = vehiculo_nombre ruta \<and>
        capacidad_maxima p = capacidad_maxima ruta \<and> capacidad_usada p = capacidad_usada ruta \<and>
        eficiencia p = eficiencia ruta)"
  (is "?l \<longleftrightarrow> ?r")
proof
  assume ?l
  then show ?r
    by (auto simp: ver_ruta_def bind_eq_Some_conv those_map_Some)
next
  assume ?r
  then obtain ruta xs where a: "leer_ruta h r = Some ruta" "leer_array h (tiendas ruta) = Some xs"
    "those (map (leer_tienda h) xs) = Some (tiendas p)"
    and b: "vehiculo_id p = vehiculo_id ruta" "vehiculo_nombre p = vehiculo_nombre ruta"
      "capacidad_maxima p = capacidad_maxima ruta" "capacidad_usada p = capacidad_usada ruta"
      "eficiencia p = eficiencia ruta"
    by (auto simp: those_map_Some)
  have "p = \<lparr> vehiculo_id = vehiculo_id ruta, vehiculo_nombre = vehiculo_nombre ruta,
      capacidad_maxima = capacidad_maxima ruta, capacidad_usada = capacidad_usada ruta,
      tiendas = tiendas p, eficiencia = eficiencia ruta \<rparr>"
    using b by (cases p) simp
  with a show ?l by (simp add: ver_ruta_def)
qed

text \<open>A route read by value stays the same when the cells it is read from stay the same.\<close>

lemma ver_ruta_igual:
  assumes v: "ver_ruta h r = Some p"
    and eq: "igual_fuera A h h'"
    and r: "r \<notin> A" and a: "arr_de h r \<notin> A"
    and nt: "\<forall>a\<in>A. \<forall>t. leer_tienda h a \<noteq> Some t"
  shows "ver_ruta h' r = Some p"
proof -
  from v obtain ruta xs where l: "leer_ruta h r = Some ruta" "leer_array h (tiendas ruta) = Some xs"
    "list_all2 (\<lambda>x t. leer_tienda h x = Some t) xs (tiendas p)"
    and b: "vehiculo_id p = vehiculo_id ruta" "vehiculo_nombre p = vehiculo_nombre ruta"
      "capacidad_maxima p = capacidad_maxima ruta" "capacidad_usada p = capacidad_usada ruta"
      "eficiencia p = eficiencia ruta"
    unfolding ver_ruta_Some by blast
  from l(1) have ad: "arr_de h r = tiendas ruta" by (simp add: arr_de_def)
  from eq have len: "length h' = length h" and same: "\<And>a. a \<notin> A \<Longrightarrow> h' ! a = h ! a"
    by (simp_all add: igual_fuera_def)
  have 1: "leer_ruta h' r = Some ruta"
    using l(1) r same[of r] len by (simp add: leer_ruta_Some)
  have 2: "leer_array h' (tiendas ruta) = Some xs"
    using l(2) a ad same[of "tiendas ruta"] len by (simp add: leer_array_Some)
  have 3: "leer_tienda h' x = Some t" if "leer_tienda h x = Some t" for x t
  proof -
    from that nt have "x \<notin> A" by auto
    with that same[of x] len show ?thesis by (simp add: leer_tienda_Some)
  qed
  have "list_all2 (\<lambda>x t. leer_tienda h' x = Some t) xs (tiendas p)"
    using l(3) by (rule list_all2_mono) (rule 3)
  with 1 2 b show ?thesis unfolding ver_ruta_Some by blast
qed

lemma list_all2_set1: "list_all2 P xs ys \<Longrightarrow> x \<in> set xs \<Longrightarrow> \<exists>y. P x y"
  by (induction xs ys rule: list_all2_induct) auto

lemma ver_ruta_celdas:
  assumes "ver_ruta h r = Some p"
  shows "\<exists>ruta xs. leer_ruta h r = Some ruta \<and> arr_de h r = tiendas ruta \<and>
           leer_array h (tiendas ruta) = Some xs"
  using assms unfolding ver_ruta_Some by (auto simp: arr_de_def)

lemma ruta_no_es_array:
  assumes "ver_ruta h r = Some p" and "ver_ruta h r' = Some p'"
  shows "r \<noteq> arr_de h r'"
proof
  assume e: "r = arr_de h r'"
  from assms(1) obtain ruta where "leer_ruta h r = Some ruta"
    using ver_ruta_celdas by blast
  moreover from assms(2) obtain xs where "leer_array h (arr_de h r') = Some xs"
    using ver_ruta_celdas by metis
  ultimately show False using e by (simp add: leer_ruta_Some leer_array_Some)
qed

lemma tienda_no_es_ruta:
  assumes "ver_ruta h r = Some p" and "leer_tienda h x = Some t"
  shows "x \<noteq> r" and "x \<noteq> arr_de h r"
proof -
  from assms(1) obtain ruta xs where l: "leer_ruta h r = Some ruta" "arr_de h r = tiendas ruta"
    "leer_array h (tiendas ruta) = Some xs"
    using ver_ruta_celdas by blast
  from l(1) assms(2) show "x \<noteq> r" by (auto simp: leer_ruta_Some leer_tienda_Some)
  from l(2,3) assms(2) show "x \<noteq> arr_de h r" by (auto simp: leer_array_Some leer_tienda_Some)
qed

text \<open>The body of the \<^verbatim>\<open>if\<close>, on the heap: the array of the route and the route object are
  written, nothing else.\<close>

lemma cargar_h:
  assumes v: "ver_ruta h r = Some p"
    and lr: "leer_ruta h r = Some ruta"
    and la: "leer_array h (tiendas ruta) = Some xs"
    and lt: "leer_tienda h t = Some tv"
    and h': "h' = (h[tiendas ruta := ObjArray (xs @ [t])])[r := ObjRuta (ruta
           \<lparr> capacidad_usada := suma_carga (capacidad_usada ruta) tv,
             eficiencia :=
               porcentaje (suma_carga (capacidad_usada ruta) tv)
                 (capacidad_maxima ruta) \<rparr>)]"
  shows "ver_ruta h' r = Some (cargar tv p)"
    and "igual_fuera {r, arr_de h r} h h'"
    and "arr_de h' r = arr_de h r"
proof -
  from lr have ad: "arr_de h r = tiendas ruta" by (simp add: arr_de_def)
  from lr la have ne: "tiendas ruta \<noteq> r" by (auto simp: leer_ruta_Some leer_array_Some)
  from lr have rl: "r < length h" by (simp add: leer_ruta_Some)
  from la have al: "tiendas ruta < length h" by (simp add: leer_array_Some)
  show eq: "igual_fuera {r, arr_de h r} h h'"
    by (simp add: igual_fuera_def h' ad)
  have 1: "leer_ruta h' r = Some (ruta
           \<lparr> capacidad_usada := suma_carga (capacidad_usada ruta) tv,
             eficiencia :=
               porcentaje (suma_carga (capacidad_usada ruta) tv)
                 (capacidad_maxima ruta) \<rparr>)"
    using rl by (simp add: h' leer_ruta_Some)
  then show "arr_de h' r = arr_de h r" by (simp add: arr_de_def lr)
  have 2: "leer_array h' (tiendas ruta) = Some (xs @ [t])"
    using al ne by (simp add: h' leer_array_Some)
  have 3: "leer_tienda h' x = Some u" if "leer_tienda h x = Some u" for x u
  proof -
    from v that have "x \<noteq> r" "x \<noteq> tiendas ruta"
      using tienda_no_es_ruta[of h r p x u] ad by auto
    with that show ?thesis by (simp add: h' leer_tienda_Some)
  qed
  from v have 4: "list_all2 (\<lambda>x u. leer_tienda h x = Some u) xs (tiendas p)"
    and f: "vehiculo_id p = vehiculo_id ruta" "vehiculo_nombre p = vehiculo_nombre ruta"
      "capacidad_maxima p = capacidad_maxima ruta" "capacidad_usada p = capacidad_usada ruta"
      "eficiencia p = eficiencia ruta"
    using lr la unfolding ver_ruta_Some by auto
  have "list_all2 (\<lambda>x u. leer_tienda h' x = Some u) xs (tiendas p)"
    using 4 by (rule list_all2_mono) (rule 3)
  moreover have "leer_tienda h' t = Some tv" using lt by (rule 3)
  ultimately have 5: "list_all2 (\<lambda>x u. leer_tienda h' x = Some u) (xs @ [t]) (tiendas p @ [tv])"
    by (simp add: list_all2_appendI)
  show "ver_ruta h' r = Some (cargar tv p)"
    unfolding ver_ruta_Some using 1 2 5 f by (simp add: cargar_def)
qed

lemma asignar_h_ok:
  assumes "list_all2 (\<lambda>r p. ver_ruta h r = Some p) rs ps"
    and "distinct rs" and "distinct (map (arr_de h) rs)"
    and "leer_tienda h t = Some tv"
  shows "\<exists>h'. asignar_h t h rs = Some h' \<and>
      igual_fuera (set rs \<union> arr_de h ` set rs) h h' \<and>
      (\<forall>r\<in>set rs. arr_de h' r = arr_de h r) \<and>
      list_all2 (\<lambda>r p. ver_ruta h' r = Some p) rs (asignar tv ps)"
  using assms
proof (induction rs ps rule: list_all2_induct)
  case Nil
  then show ?case by (simp add: igual_fuera_def)
next
  case (Cons r rs p ps)
  from Cons.hyps(1) obtain ruta xs where lr: "leer_ruta h r = Some ruta"
    and ad: "arr_de h r = tiendas ruta" and la: "leer_array h (tiendas ruta) = Some xs"
    using ver_ruta_celdas by blast
  from Cons.hyps(1) lr have f: "capacidad_maxima p = capacidad_maxima ruta"
    "capacidad_usada p = capacidad_usada ruta"
    unfolding ver_ruta_Some by auto
  have lt: "leer_tienda h t = Some tv" by (rule Cons.prems(3))
  have vis: "\<exists>q. ver_ruta h r' = Some q" if "r' \<in> set rs" for r'
    using Cons.hyps(2) that by (rule list_all2_set1)
  have notienda: "\<forall>a\<in>set (r # rs) \<union> arr_de h ` set (r # rs). \<forall>u. leer_tienda h a \<noteq> Some u"
  proof (intro ballI allI notI)
    fix a u
    assume a: "a \<in> set (r # rs) \<union> arr_de h ` set (r # rs)" and u: "leer_tienda h a = Some u"
    from a obtain r' where r': "r' \<in> set (r # rs)" and "a = r' \<or> a = arr_de h r'" by auto
    moreover from r' obtain q where "ver_ruta h r' = Some q"
      using vis Cons.hyps(1) by auto
    ultimately show False using tienda_no_es_ruta[of h r' q a u] u by auto
  qed
  show ?case
  proof (cases "js_le (suma_carga (capacidad_usada ruta) tv) (capacidad_maxima ruta)")
    case True
    define h' where "h' = (h[tiendas ruta := ObjArray (xs @ [t])])[r := ObjRuta (ruta
           \<lparr> capacidad_usada := suma_carga (capacidad_usada ruta) tv,
             eficiencia :=
               porcentaje (suma_carga (capacidad_usada ruta) tv)
                 (capacidad_maxima ruta) \<rparr>)]"
    note c = cargar_h[OF Cons.hyps(1) lr la lt h'_def]
    have run: "asignar_h t h (r # rs) = Some h'"
      using lr la lt True by (simp add: h'_def)
    have eq: "igual_fuera (set (r # rs) \<union> arr_de h ` set (r # rs)) h h'"
      using c(2) by (auto simp: igual_fuera_def)
    have others: "ver_ruta h' r' = Some q \<and> arr_de h' r' = arr_de h r'"
      if "r' \<in> set rs" and q: "ver_ruta h r' = Some q" for r' q
    proof -
      from that Cons.prems(1) have 1: "r' \<noteq> r" by auto
      from q Cons.hyps(1) have 2: "r' \<noteq> arr_de h r" by (rule ruta_no_es_array)
      from Cons.hyps(1) q have 3: "r \<noteq> arr_de h r'" by (rule ruta_no_es_array)
      from Cons.prems(2) have "arr_de h r \<notin> arr_de h ` set rs" by simp
      with that(1) have 4: "arr_de h r' \<noteq> arr_de h r" by (metis imageI)
      have nt: "\<forall>a\<in>{r, arr_de h r}. \<forall>u. leer_tienda h a \<noteq> Some u"
        using notienda by auto
      have "ver_ruta h' r' = Some q"
        using q c(2) _ _ nt by (rule ver_ruta_igual) (use 1 2 3 4 in auto)
      moreover have "h' ! r' = h ! r'" "length h' = length h"
        using c(2) 1 2 by (auto simp: igual_fuera_def)
      then have "leer_ruta h' r' = leer_ruta h r'"
        by (simp add: leer_ruta_def leer_def)
      then have "arr_de h' r' = arr_de h r'" by (simp add: arr_de_def)
      ultimately show ?thesis by simp
    qed
    have tail: "list_all2 (\<lambda>r p. ver_ruta h' r = Some p) rs ps"
      using Cons.hyps(2) by (rule list.rel_mono_strong) (use others in blast)
    have arrs: "\<forall>r'\<in>set (r # rs). arr_de h' r' = arr_de h r'"
    proof
      fix r'
      assume "r' \<in> set (r # rs)"
      then consider "r' = r" | "r' \<in> set rs" by auto
      then show "arr_de h' r' = arr_de h r'"
      proof cases
        case 1
        with c(3) show ?thesis by simp
      next
        case 2
        then obtain q where "ver_ruta h r' = Some q" using vis by blast
        with 2 others show ?thesis by blast
      qed
    qed
    have "asignar tv (p # ps) = cargar tv p # ps"
      using True f by simp
    with c(1) tail have "list_all2 (\<lambda>r p. ver_ruta h' r = Some p) (r # rs) (asignar tv (p # ps))"
      by simp
    with run eq arrs show ?thesis by blast
  next
    case False
    from Cons.prems have "distinct rs" "distinct (map (arr_de h) rs)" by auto
    with Cons.IH lt obtain h' where run: "asignar_h t h rs = Some h'"
      and eq: "igual_fuera (set rs \<union> arr_de h ` set rs) h h'"
      and arrs: "\<forall>r\<in>set rs. arr_de h' r = arr_de h r"
      and tail: "list_all2 (\<lambda>r p. ver_ruta h' r = Some p) rs (asignar tv ps)"
      by blast
    have run': "asignar_h t h (r # rs) = Some h'"
      using lr lt False run by simp
    have eq': "igual_fuera (set (r # rs) \<union> arr_de h ` set (r # rs)) h h'"
      using eq by (auto simp: igual_fuera_def)
    have 1: "r \<notin> set rs \<union> arr_de h ` set rs"
    proof
      assume "r \<in> set rs \<union> arr_de h ` set rs"
      with Cons.prems(1) obtain r' where r': "r' \<in> set rs" "r = arr_de h r'" by auto
      from r'(1) obtain q where "ver_ruta h r' = Some q" using vis by blast
      with Cons.hyps(1) have "r \<noteq> arr_de h r'" by (rule ruta_no_es_array)
      with r'(2) show False by simp
    qed
    have 2: "arr_de h r \<notin> set rs \<union> arr_de h ` set rs"
    proof
      assume "arr_de h r \<in> set rs \<union> arr_de h ` set rs"
      with Cons.prems(2) have r': "arr_de h r \<in> set rs" by auto
      then obtain q where "ver_ruta h (arr_de h r) = Some q" using vis by blast
      from this Cons.hyps(1) have "arr_de h r \<noteq> arr_de h r" by (rule ruta_no_es_array)
      then show False by simp
    qed
    have nt: "\<forall>a\<in>set rs \<union> arr_de h ` set rs. \<forall>u. leer_tienda h a \<noteq> Some u"
      using notienda by auto
    have head: "ver_ruta h' r = Some p"
      using Cons.hyps(1) eq 1 2 nt by (rule ver_ruta_igual)
    have "h' ! r = h ! r" "length h' = length h"
      using eq 1 by (auto simp: igual_fuera_def)
    then have "leer_ruta h' r = leer_ruta h r" by (simp add: leer_ruta_def leer_def)
    then have "arr_de h' r = arr_de h r" by (simp add: arr_de_def)
    with arrs have arrs': "\<forall>r'\<in>set (r # rs). arr_de h' r' = arr_de h r'" by simp
    have "asignar tv (p # ps) = p # asignar tv ps"
      using False f by simp
    with head tail have "list_all2 (\<lambda>r p. ver_ruta h' r = Some p) (r # rs) (asignar tv (p # ps))"
      by simp
    with run' eq' arrs' show ?thesis by blast
  qed
qed

lemma conserva_refl: "n \<le> length h \<Longrightarrow> conserva n h h"
  by (simp add: conserva_def)

lemma conserva_trans: "conserva n h h1 \<Longrightarrow> conserva n h1 h2 \<Longrightarrow> conserva n h h2"
  by (simp add: conserva_def)

lemma conserva_append: "n \<le> length h \<Longrightarrow> conserva n h (h @ cs)"
  by (simp add: conserva_def)

lemma conserva_update: "n \<le> length h \<Longrightarrow> n \<le> a \<Longrightarrow> conserva n h (h[a := c])"
  by (simp add: conserva_def)

lemma conserva_mono: "conserva n h h' \<Longrightarrow> m \<le> n \<Longrightarrow> conserva m h h'"
proof -
  assume c: "conserva n h h'" and m: "m \<le> n"
  from c have "take m (take n h') = take m (take n h)" by (simp add: conserva_def)
  with m have "take m h' = take m h" by (simp add: min_absorb1)
  with c m show ?thesis by (simp add: conserva_def)
qed

lemma conserva_nth: "conserva n h h' \<Longrightarrow> a < n \<Longrightarrow> h' ! a = h ! a"
proof -
  assume c: "conserva n h h'" and a: "a < n"
  from a have "h' ! a = take n h' ! a" by simp
  also from c have "\<dots> = take n h ! a" by (simp add: conserva_def)
  also from a have "\<dots> = h ! a" by simp
  finally show ?thesis .
qed

lemma conserva_leer: "conserva (length h) h h' \<Longrightarrow> leer h a = Some c \<Longrightarrow> leer h' a = Some c"
  using conserva_nth[of "length h" h h' a]
  by (auto simp: leer_def conserva_def split: if_splits)

lemma conserva_leer_tienda:
  "conserva (length h) h h' \<Longrightarrow> leer_tienda h a = Some c \<Longrightarrow> leer_tienda h' a = Some c"
  using conserva_nth[of "length h" h h' a] by (auto simp: leer_tienda_Some conserva_def)

lemma conserva_leer_vehiculo:
  "conserva (length h) h h' \<Longrightarrow> leer_vehiculo h a = Some c \<Longrightarrow> leer_vehiculo h' a = Some c"
  using conserva_nth[of "length h" h h' a] by (auto simp: leer_vehiculo_Some conserva_def)

lemma conserva_leer_ruta:
  "conserva (length h) h h' \<Longrightarrow> leer_ruta h a = Some c \<Longrightarrow> leer_ruta h' a = Some c"
  using conserva_nth[of "length h" h h' a] by (auto simp: leer_ruta_Some conserva_def)

lemma conserva_leer_array:
  "conserva (length h) h h' \<Longrightarrow> leer_array h a = Some c \<Longrightarrow> leer_array h' a = Some c"
  using conserva_nth[of "length h" h h' a] by (auto simp: leer_array_Some conserva_def)

lemma conserva_ver_ruta:
  assumes c: "conserva (length h) h h'" and v: "ver_ruta h r = Some p"
  shows "ver_ruta h' r = Some p" and "arr_de h' r = arr_de h r"
proof -
  from v obtain ruta xs where l: "leer_ruta h r = Some ruta" "leer_array h (tiendas ruta) = Some xs"
    "list_all2 (\<lambda>x t. leer_tienda h x = Some t) xs (tiendas p)"
    and b: "vehiculo_id p = vehiculo_id ruta" "vehiculo_nombre p = vehiculo_nombre ruta"
      "capacidad_maxima p = capacidad_maxima ruta" "capacidad_usada p = capacidad_usada ruta"
      "eficiencia p = eficiencia ruta"
    unfolding ver_ruta_Some by blast
  have 1: "leer_ruta h' r = Some ruta" using c l(1) by (rule conserva_leer_ruta)
  have 2: "leer_array h' (tiendas ruta) = Some xs" using c l(2) by (rule conserva_leer_array)
  have 3: "list_all2 (\<lambda>x t. leer_tienda h' x = Some t) xs (tiendas p)"
    using l(3) by (rule list_all2_mono) (rule conserva_leer_tienda[OF c])
  from 1 2 3 b show "ver_ruta h' r = Some p" unfolding ver_ruta_Some by blast
  from 1 l(1) show "arr_de h' r = arr_de h r" by (simp add: arr_de_def)
qed

lemma ver_ruta_cotas:
  assumes "ver_ruta h r = Some p"
  shows "r < length h" and "arr_de h r < length h"
  using ver_ruta_celdas[OF assms] by (auto simp: leer_ruta_Some leer_array_Some)

text \<open>The sort on references, comparing the stores they point to, sorts as the sort on the
  stores themselves.\<close>

lemma sort_insert_rel:
  assumes c: "\<And>x y x' y'. R x y \<Longrightarrow> R x' y' \<Longrightarrow> c1 x x' = c2 y y'"
  shows "list_all2 R xs ys \<Longrightarrow> R x y \<Longrightarrow>
         list_all2 R (sort_insert c1 x xs) (sort_insert c2 y ys)"
proof (induction xs ys rule: list_all2_induct)
  case Nil
  then show ?case by simp
next
  case (Cons x' xs y' ys)
  from Cons.prems Cons.hyps(1) have "c1 x x' = c2 y y'" by (rule c)
  with Cons show ?case by simp
qed

lemma js_sort_rel:
  assumes c: "\<And>x y x' y'. R x y \<Longrightarrow> R x' y' \<Longrightarrow> c1 x x' = c2 y y'"
  shows "list_all2 R xs ys \<Longrightarrow> list_all2 R (js_sort c1 xs) (js_sort c2 ys)"
proof (induction xs ys rule: list_all2_induct)
  case Nil
  show ?case by (simp add: js_sort_def)
next
  case (Cons x xs y ys)
  have "list_all2 R (sort_insert c1 x (js_sort c1 xs)) (sort_insert c2 y (js_sort c2 ys))"
    using c Cons.IH Cons.hyps(1) by (rule sort_insert_rel)
  then show ?case by (simp add: js_sort_def)
qed

lemma ordenar_en_sitio_ok:
  assumes la: "leer_array h a = Some xs"
    and ts: "list_all2 (\<lambda>x t. leer_tienda h x = Some t) xs tvs"
  shows "\<exists>ys. ordenar_en_sitio h a = Some (h[a := ObjArray ys]) \<and>
           list_all2 (\<lambda>x t. leer_tienda h x = Some t) ys (tiendasOrdenadas tvs)"
proof -
  let ?c = "\<lambda>x y. js_sub (combis_en h y) (combis_en h x)"
  have all: "list_all (\<lambda>x. leer_tienda h x \<noteq> None) xs"
    unfolding list_all_iff using list_all2_set1[OF ts] by fastforce
  have "list_all2 (\<lambda>x t. leer_tienda h x = Some t) (js_sort ?c xs) (js_sort por_combis_desc tvs)"
    using _ ts by (rule js_sort_rel) (simp add: combis_en_def por_combis_desc_def)
  with la all show ?thesis
    by (intro exI[of _ "js_sort ?c xs"]) (simp add: ordenar_en_sitio_def tiendasOrdenadas_def)
qed

lemma crear_rutas_ok:
  assumes "list_all2 (\<lambda>v vv. leer_vehiculo h v = Some vv) vs vvs"
  shows "\<exists>h' rs. crear_rutas h vs = Some (h', rs) \<and> conserva (length h) h h' \<and>
      list_all2 (\<lambda>r p. ver_ruta h' r = Some p) rs (map nueva_ruta vvs) \<and>
      distinct rs \<and> distinct (map (arr_de h') rs) \<and>
      (\<forall>r\<in>set rs. length h \<le> r \<and> length h \<le> arr_de h' r)"
  using assms
proof (induction vs arbitrary: h vvs)
  case Nil
  then show ?case by (simp add: conserva_refl)
next
  case (Cons v vs h vvs0)
  from Cons.prems obtain vv vvs where vvs0: "vvs0 = vv # vvs"
    and hv: "leer_vehiculo h v = Some vv"
    and hvs: "list_all2 (\<lambda>v vv. leer_vehiculo h v = Some vv) vs vvs"
    by (auto simp: list_all2_Cons1)
  define ro :: "nat ruta_de" where "ro =
     \<lparr> vehiculo_id = id_vehiculo vv, vehiculo_nombre = nombre_corto vv,
       capacidad_maxima = num (capacidad_combis vv), capacidad_usada = Fin 0,
       tiendas = length h, eficiencia = Fin 0 \<rparr>"
  define h2 where "h2 = (h @ [ObjArray []]) @ [ObjRuta ro]"
  have len2: "length h2 = length h + 2" by (simp add: h2_def)
  have c2: "conserva (length h) h h2" by (simp add: h2_def conserva_def)
  have "list_all2 (\<lambda>v vv. leer_vehiculo h2 v = Some vv) vs vvs"
    using hvs by (rule list_all2_mono) (simp add: conserva_leer_vehiculo[OF c2])
  from Cons.IH[OF this] obtain h3 rs where run: "crear_rutas h2 vs = Some (h3, rs)"
    and c3: "conserva (length h2) h2 h3"
    and vs: "list_all2 (\<lambda>r p. ver_ruta h3 r = Some p) rs (map nueva_ruta vvs)"
    and d: "distinct rs" "distinct (map (arr_de h3) rs)"
    and b: "\<forall>r\<in>set rs. length h2 \<le> r \<and> length h2 \<le> arr_de h3 r"
    by blast
  have run': "crear_rutas h (v # vs) = Some (h3, Suc (length h) # rs)"
    using hv run by (simp add: alloc_def h2_def ro_def)
  have "leer_ruta h2 (Suc (length h)) = Some ro" "leer_array h2 (length h) = Some []"
    by (simp_all add: h2_def leer_ruta_Some leer_array_Some nth_append)
  then have "ver_ruta h2 (Suc (length h)) = Some (nueva_ruta vv)"
    unfolding ver_ruta_Some by (simp add: nueva_ruta_def ro_def)
  note v3 = conserva_ver_ruta[OF c3 this]
  have "arr_de h2 (Suc (length h)) = length h"
    using \<open>leer_ruta h2 (Suc (length h)) = Some ro\<close> by (simp add: arr_de_def ro_def)
  with v3(2) have a3: "arr_de h3 (Suc (length h)) = length h" by simp
  have 1: "conserva (length h) h h3"
    using c2 conserva_mono[OF c3, of "length h"] len2 by (auto intro: conserva_trans)
  have 2: "list_all2 (\<lambda>r p. ver_ruta h3 r = Some p) (Suc (length h) # rs)
      (map nueva_ruta (vv # vvs))"
    using v3(1) vs by simp
  have 3: "distinct (Suc (length h) # rs)"
    using d(1) b len2 by auto
  have 4: "distinct (map (arr_de h3) (Suc (length h) # rs))"
    using d(2) b len2 a3 by auto
  have 5: "\<forall>r\<in>set (Suc (length h) # rs). length h \<le> r \<and> length h \<le> arr_de h3 r"
    using b len2 a3 by auto
  from run' 1 2 3 4 5 show ?case unfolding vvs0 by blast
qed

lemma huella_sin_tiendas:
  assumes "list_all2 (\<lambda>r p. ver_ruta h r = Some p) rs ps"
  shows "\<forall>a\<in>set rs \<union> arr_de h ` set rs. \<forall>u. leer_tienda h a \<noteq> Some u"
proof (intro ballI allI notI)
  fix a u
  assume a: "a \<in> set rs \<union> arr_de h ` set rs" and u: "leer_tienda h a = Some u"
  from a obtain r where r: "r \<in> set rs" and "a = r \<or> a = arr_de h r" by auto
  moreover from r obtain q where "ver_ruta h r = Some q"
    using assms list_all2_set1 by fastforce
  ultimately show False using tienda_no_es_ruta[of h r q a u] u by auto
qed

lemma igual_fuera_leer_tienda:
  assumes "igual_fuera A h h'" and "\<forall>a\<in>A. \<forall>u. leer_tienda h a \<noteq> Some u"
    and "leer_tienda h x = Some t"
  shows "leer_tienda h' x = Some t"
proof -
  from assms(2,3) have "x \<notin> A" by auto
  with assms(1,3) show ?thesis by (simp add: igual_fuera_def leer_tienda_Some)
qed

lemma igual_fuera_trans: "igual_fuera A h h1 \<Longrightarrow> igual_fuera A h1 h2 \<Longrightarrow> igual_fuera A h h2"
  by (simp add: igual_fuera_def)

lemma forEach_asignar_ok:
  assumes "list_all2 (\<lambda>t tv. leer_tienda h t = Some tv) ts tvs"
    and "list_all2 (\<lambda>r p. ver_ruta h r = Some p) rs ps"
    and "distinct rs" and "distinct (map (arr_de h) rs)"
  shows "\<exists>h'. forEach_asignar h ts rs = Some h' \<and>
      igual_fuera (set rs \<union> arr_de h ` set rs) h h' \<and>
      (\<forall>r\<in>set rs. arr_de h' r = arr_de h r) \<and>
      list_all2 (\<lambda>r p. ver_ruta h' r = Some p) rs (fold asignar tvs ps)"
  using assms
proof (induction ts arbitrary: h ps tvs)
  case Nil
  then show ?case by (simp add: igual_fuera_def)
next
  case (Cons t ts h ps tvs0)
  from Cons.prems(1) obtain tv tvs where tvs0: "tvs0 = tv # tvs"
    and ht: "leer_tienda h t = Some tv"
    and hts: "list_all2 (\<lambda>t tv. leer_tienda h t = Some tv) ts tvs"
    by (auto simp: list_all2_Cons1)
  let ?A = "set rs \<union> arr_de h ` set rs"
  have "\<exists>h1. asignar_h t h rs = Some h1 \<and> igual_fuera ?A h h1 \<and>
      (\<forall>r\<in>set rs. arr_de h1 r = arr_de h r) \<and>
      list_all2 (\<lambda>r p. ver_ruta h1 r = Some p) rs (asignar tv ps)"
    using Cons.prems(2,3,4) ht by (rule asignar_h_ok)
  then obtain h1 where run: "asignar_h t h rs = Some h1"
    and eq: "igual_fuera ?A h h1"
    and arrs: "\<forall>r\<in>set rs. arr_de h1 r = arr_de h r"
    and vs: "list_all2 (\<lambda>r p. ver_ruta h1 r = Some p) rs (asignar tv ps)"
    by blast
  have nt: "\<forall>a\<in>?A. \<forall>u. leer_tienda h a \<noteq> Some u"
    using Cons.prems(2) by (rule huella_sin_tiendas)
  have ts1: "list_all2 (\<lambda>t tv. leer_tienda h1 t = Some tv) ts tvs"
    using hts by (rule list_all2_mono) (simp add: igual_fuera_leer_tienda[OF eq nt])
  from arrs have m: "map (arr_de h1) rs = map (arr_de h) rs" by simp
  from arrs have A: "set rs \<union> arr_de h1 ` set rs = ?A" by auto
  have d1: "distinct (map (arr_de h1) rs)" unfolding m by (rule Cons.prems(4))
  from Cons.IH[OF ts1 vs Cons.prems(3) d1]
  obtain h' where run': "forEach_asignar h1 ts rs = Some h'"
    and eq': "igual_fuera ?A h1 h'"
    and arrs': "\<forall>r\<in>set rs. arr_de h' r = arr_de h1 r"
    and vs': "list_all2 (\<lambda>r p. ver_ruta h' r = Some p) rs (fold asignar tvs (asignar tv ps))"
    unfolding A by blast
  have "forEach_asignar h (t # ts) rs = Some h'" using run run' by simp
  moreover have "igual_fuera ?A h h'" using eq eq' by (rule igual_fuera_trans)
  moreover have "\<forall>r\<in>set rs. arr_de h' r = arr_de h r" using arrs arrs' by simp
  moreover have "list_all2 (\<lambda>r p. ver_ruta h' r = Some p) rs (fold asignar (tv # tvs) ps)"
    using vs' by simp
  ultimately show ?case unfolding tvs0 by blast
qed

lemma filtrar_con_tiendas_ok:
  assumes "list_all2 (\<lambda>r p. ver_ruta h r = Some p) rs ps"
  shows "\<exists>ys. filtrar_con_tiendas h rs = Some ys \<and> set ys \<subseteq> set rs \<and>
      list_all2 (\<lambda>r p. ver_ruta h r = Some p) ys (filter (\<lambda>p. length (tiendas p) > 0) ps)"
  using assms
proof (induction rs ps rule: list_all2_induct)
  case Nil
  show ?case by simp
next
  case (Cons r rs p ps)
  from Cons.hyps(1) obtain ruta xs where l: "leer_ruta h r = Some ruta"
    "leer_array h (tiendas ruta) = Some xs"
    "list_all2 (\<lambda>x t. leer_tienda h x = Some t) xs (tiendas p)"
    unfolding ver_ruta_Some by blast
  from l(3) have len: "length xs = length (tiendas p)" by (rule list_all2_lengthD)
  from Cons.IH obtain ys where ys: "filtrar_con_tiendas h rs = Some ys" "set ys \<subseteq> set rs"
    "list_all2 (\<lambda>r p. ver_ruta h r = Some p) ys (filter (\<lambda>p. length (tiendas p) > 0) ps)"
    by blast
  show ?case
  proof (cases "length xs > 0")
    case True
    with l ys len Cons.hyps(1) show ?thesis by auto
  next
    case False
    with l ys len Cons.hyps(1) show ?thesis by auto
  qed
qed

lemma igual_fuera_conserva:
  assumes eq: "igual_fuera A h h'" and lo: "\<forall>a\<in>A. n \<le> a" and n: "n \<le> length h"
  shows "conserva n h h'"
proof -
  from eq have len: "length h' = length h" and same: "\<And>a. a \<notin> A \<Longrightarrow> h' ! a = h ! a"
    by (simp_all add: igual_fuera_def)
  have "take n h' = take n h"
  proof (rule nth_equalityI)
    show "length (take n h') = length (take n h)" using len by simp
  next
    fix i
    assume "i < length (take n h')"
    then have i: "i < n" by simp
    with lo have "i \<notin> A" by auto
    with i same[of i] show "take n h' ! i = take n h ! i" by simp
  qed
  with n len show ?thesis by (simp add: conserva_def)
qed

lemma ver_tiendas_Some:
  "ver_tiendas h a = Some tvs \<longleftrightarrow>
     (\<exists>xs. leer_array h a = Some xs \<and> list_all2 (\<lambda>x t. leer_tienda h x = Some t) xs tvs)"
  by (auto simp: ver_tiendas_def bind_eq_Some_conv those_map_Some)

lemma ver_vehiculos_Some:
  "ver_vehiculos h a = Some vvs \<longleftrightarrow>
     (\<exists>xs. leer_array h a = Some xs \<and> list_all2 (\<lambda>x v. leer_vehiculo h x = Some v) xs vvs)"
  by (auto simp: ver_vehiculos_def bind_eq_Some_conv those_map_Some)

lemma ver_rutas_Some:
  "ver_rutas h a = Some ps \<longleftrightarrow>
     (\<exists>rs. leer_array h a = Some rs \<and> list_all2 (\<lambda>r p. ver_ruta h r = Some p) rs ps)"
  by (auto simp: ver_rutas_def bind_eq_Some_conv those_map_Some)

lemma optimizarRutasBasico_h_ok:
  assumes vt: "ver_tiendas h ta = Some tvs" and vv: "ver_vehiculos h va = Some vvs"
  shows "\<exists>h' res rs. optimizarRutasBasico_h h ta va = Some (h', res) \<and>
      conserva (length h) h h' \<and> length h \<le> res \<and>
      leer_array h' res = Some rs \<and>
      list_all2 (\<lambda>r p. ver_ruta h' r = Some p) rs (optimizarRutasBasico tvs vvs) \<and>
      (\<forall>r\<in>set rs. length h \<le> r \<and> length h \<le> arr_de h' r)"
proof -
  from vt obtain ts where la: "leer_array h ta = Some ts"
    and lts: "list_all2 (\<lambda>x t. leer_tienda h x = Some t) ts tvs"
    unfolding ver_tiendas_Some by blast
  from vv obtain vs where lv: "leer_array h va = Some vs"
    and lvs: "list_all2 (\<lambda>x v. leer_vehiculo h x = Some v) vs vvs"
    unfolding ver_vehiculos_Some by blast
  define n where "n = length h"
  define h1 where "h1 = h @ [ObjArray ts]"
  have c1: "conserva (length h) h h1" by (simp add: h1_def conserva_def)
  have la1: "leer_array h1 n = Some ts" by (simp add: h1_def n_def leer_array_Some)
  have lts1: "list_all2 (\<lambda>x t. leer_tienda h1 x = Some t) ts tvs"
    using lts by (rule list_all2_mono) (simp add: conserva_leer_tienda[OF c1])
  from ordenar_en_sitio_ok[OF la1 lts1] obtain ys
    where so: "ordenar_en_sitio h1 n = Some (h1[n := ObjArray ys])"
      and lys1: "list_all2 (\<lambda>x t. leer_tienda h1 x = Some t) ys (tiendasOrdenadas tvs)"
    by blast
  define h2 where "h2 = h1[n := ObjArray ys]"
  have len2: "length h2 = Suc n" by (simp add: h2_def h1_def n_def)
  have c2: "conserva (length h) h h2"
    by (simp add: h2_def h1_def n_def conserva_def)
  have e12: "igual_fuera {n} h1 h2" by (simp add: h2_def igual_fuera_def)
  have nt1: "\<forall>a\<in>{n}. \<forall>u. leer_tienda h1 a \<noteq> Some u"
    using la1 by (simp add: leer_array_Some leer_tienda_Some)
  have lys2: "list_all2 (\<lambda>x t. leer_tienda h2 x = Some t) ys (tiendasOrdenadas tvs)"
    using lys1 by (rule list_all2_mono) (simp add: igual_fuera_leer_tienda[OF e12 nt1])
  have la2: "leer_array h2 n = Some ys"
    by (simp add: h2_def h1_def n_def leer_array_Some)
  have lv2: "leer_array h2 va = Some vs" using c2 lv by (rule conserva_leer_array)
  have lvs2: "list_all2 (\<lambda>x v. leer_vehiculo h2 x = Some v) vs vvs"
    using lvs by (rule list_all2_mono) (simp add: conserva_leer_vehiculo[OF c2])
  from crear_rutas_ok[OF lvs2] obtain h3 rs where cr: "crear_rutas h2 vs = Some (h3, rs)"
    and c3: "conserva (length h2) h2 h3"
    and v3: "list_all2 (\<lambda>r p. ver_ruta h3 r = Some p) rs (map nueva_ruta vvs)"
    and d3: "distinct rs" "distinct (map (arr_de h3) rs)"
    and b3: "\<forall>r\<in>set rs. length h2 \<le> r \<and> length h2 \<le> arr_de h3 r"
    by blast
  define h4 where "h4 = h3 @ [ObjArray rs]"
  have c4: "conserva (length h3) h3 h4" by (simp add: h4_def conserva_def)
  have c24: "conserva (length h2) h2 h4"
    using c3 conserva_mono[OF c4, of "length h2"] by (auto simp: conserva_def)
  have la4: "leer_array h4 n = Some ys" using c24 la2 by (rule conserva_leer_array)
  have lr4: "leer_array h4 (length h3) = Some rs" by (simp add: h4_def leer_array_Some)
  have lys4: "list_all2 (\<lambda>x t. leer_tienda h4 x = Some t) ys (tiendasOrdenadas tvs)"
    using lys2 by (rule list_all2_mono) (simp add: conserva_leer_tienda[OF c24])
  have v4: "list_all2 (\<lambda>r p. ver_ruta h4 r = Some p) rs (map nueva_ruta vvs)"
    using v3 by (rule list_all2_mono) (simp add: conserva_ver_ruta(1)[OF c4])
  have a4: "arr_de h4 r = arr_de h3 r" if "r \<in> set rs" for r
  proof -
    from v3 that obtain p where "ver_ruta h3 r = Some p" using list_all2_set1 by fastforce
    then show ?thesis by (rule conserva_ver_ruta(2)[OF c4])
  qed
  then have m4: "map (arr_de h4) rs = map (arr_de h3) rs" by simp
  have d4: "distinct (map (arr_de h4) rs)" unfolding m4 by (rule d3(2))
  have cot: "r < length h3 \<and> arr_de h3 r < length h3" if "r \<in> set rs" for r
  proof -
    from v3 that obtain p where "ver_ruta h3 r = Some p" using list_all2_set1 by fastforce
    then show ?thesis using ver_ruta_cotas by blast
  qed
  let ?A = "set rs \<union> arr_de h4 ` set rs"
  from forEach_asignar_ok[OF lys4 v4 d3(1) d4] obtain h5
    where fe: "forEach_asignar h4 ys rs = Some h5"
      and e45: "igual_fuera ?A h4 h5"
      and a5: "\<forall>r\<in>set rs. arr_de h5 r = arr_de h4 r"
      and v5: "list_all2 (\<lambda>r p. ver_ruta h5 r = Some p) rs
                 (fold asignar (tiendasOrdenadas tvs) (map nueva_ruta vvs))"
    by blast
  have len5: "length h5 = length h4" using e45 by (simp add: igual_fuera_def)
  have "length h3 \<notin> ?A" using cot a4 by fastforce
  then have "h5 ! length h3 = h4 ! length h3" using e45 by (simp add: igual_fuera_def)
  with lr4 len5 have lr5: "leer_array h5 (length h3) = Some rs"
    by (simp add: leer_array_Some)
  from filtrar_con_tiendas_ok[OF v5] obtain zs
    where fi: "filtrar_con_tiendas h5 rs = Some zs" and sub: "set zs \<subseteq> set rs"
      and v5': "list_all2 (\<lambda>r p. ver_ruta h5 r = Some p) zs
                 (filter (\<lambda>p. length (tiendas p) > 0)
                    (fold asignar (tiendasOrdenadas tvs) (map nueva_ruta vvs)))"
    by blast
  define h6 where "h6 = h5 @ [ObjArray zs]"
  have c6: "conserva (length h5) h5 h6" by (simp add: h6_def conserva_def)
  have run: "optimizarRutasBasico_h h ta va = Some (h6, length h5)"
    using la so la2 lv2 cr la4 lr4 fe lr5 fi
    by (simp add: optimizarRutasBasico_h_def alloc_def h1_def[symmetric] n_def[symmetric]
        h2_def[symmetric] h4_def[symmetric] h6_def[symmetric])
  have nlo: "\<forall>a\<in>?A. n \<le> a"
    using b3 a4 len2 by auto
  have n4: "n \<le> length h4" using c24 len2 by (simp add: conserva_def)
  have c45: "conserva n h4 h5" using e45 nlo n4 by (rule igual_fuera_conserva)
  have cn2: "conserva n h h2" using c2 by (simp add: n_def)
  have cn24: "conserva n h2 h4" using c24 len2 by (auto intro: conserva_mono)
  have cn56: "conserva n h5 h6" using c45 by (simp add: h6_def conserva_def)
  have cons: "conserva (length h) h h6"
    using cn2 cn24 c45 cn56 unfolding n_def by (blast intro: conserva_trans)
  have lres: "leer_array h6 (length h5) = Some zs" by (simp add: h6_def leer_array_Some)
  have v6: "list_all2 (\<lambda>r p. ver_ruta h6 r = Some p) zs (optimizarRutasBasico tvs vvs)"
    unfolding optimizarRutasBasico_def repartir_def
    using v5' by (rule list_all2_mono) (simp add: conserva_ver_ruta(1)[OF c6])
  have fresh: "\<forall>r\<in>set zs. length h \<le> r \<and> length h \<le> arr_de h6 r"
  proof
    fix r
    assume "r \<in> set zs"
    with sub have r: "r \<in> set rs" by auto
    from v5 r obtain p where "ver_ruta h5 r = Some p" using list_all2_set1 by fastforce
    then have "arr_de h6 r = arr_de h5 r" by (rule conserva_ver_ruta(2)[OF c6])
    with a5 a4 r have "arr_de h6 r = arr_de h3 r" by simp
    with b3 r len2 show "length h \<le> r \<and> length h \<le> arr_de h6 r"
      by (auto simp: n_def)
  qed
  have "length h \<le> length h5" using len5 n4 by (simp add: n_def)
  with run cons lres v6 fresh show ?thesis by blast
qed

lemma conserva_take: "conserva (length h) h h' \<Longrightarrow> take (length h) h' = h"
  by (simp add: conserva_def)

lemma conserva_ver_tiendas:
  assumes c: "conserva (length h) h h'" and v: "ver_tiendas h a = Some ts"
  shows "ver_tiendas h' a = Some ts"
proof -
  from v obtain xs where l: "leer_array h a = Some xs"
    "list_all2 (\<lambda>x t. leer_tienda h x = Some t) xs ts"
    unfolding ver_tiendas_Some by blast
  have "leer_array h' a = Some xs" using c l(1) by (rule conserva_leer_array)
  moreover have "list_all2 (\<lambda>x t. leer_tienda h' x = Some t) xs ts"
    using l(2) by (rule list_all2_mono) (simp add: conserva_leer_tienda[OF c])
  ultimately show ?thesis unfolding ver_tiendas_Some by blast
qed

lemma conserva_ver_vehiculos:
  assumes c: "conserva (length h) h h'" and v: "ver_vehiculos h a = Some vs"
  shows "ver_vehiculos h' a = Some vs"
proof -
  from v obtain xs where l: "leer_array h a = Some xs"
    "list_all2 (\<lambda>x t. leer_vehiculo h x = Some t) xs vs"
    unfolding ver_vehiculos_Some by blast
  have "leer_array h' a = Some xs" using c l(1) by (rule conserva_leer_array)
  moreover have "list_all2 (\<lambda>x t. leer_vehiculo h' x = Some t) xs vs"
    using l(2) by (rule list_all2_mono) (simp add: conserva_leer_vehiculo[OF c])
  ultimately show ?thesis unfolding ver_vehiculos_Some by blast
qed

lemma conserva_ver_rutas:
  assumes c: "conserva (length h) h h'" and v: "ver_rutas h a = Some ps"
  shows "ver_rutas h' a = Some ps"
proof -
  from v obtain rs where l: "leer_array h a = Some rs"
    "list_all2 (\<lambda>r p. ver_ruta h r = Some p) rs ps"
    unfolding ver_rutas_Some by blast
  have "leer_array h' a = Some rs" using c l(1) by (rule conserva_leer_array)
  moreover have "list_all2 (\<lambda>r p. ver_ruta h' r = Some p) rs ps"
    using l(2) by (rule list_all2_mono) (simp add: conserva_ver_ruta(1)[OF c])
  ultimately show ?thesis unfolding ver_rutas_Some by blast
qed

lemma calcularMetricas_h_ok:
  assumes "ver_rutas h ra = Some rutas"
  shows "calcularMetricas_h h ra n =
           Some (h @ [ObjMetricas (calcularMetricas rutas n)], length h)"
  using assms by (simp add: calcularMetricas_h_def alloc_def)

lemmas leer_defs = leer_def leer_array_def leer_tienda_def leer_vehiculo_def leer_ruta_def

text \<open>
  Claim C9: neither function changes its arguments. On a heap where the argument
  arrays hold rows of the declared shape, \<^verbatim>\<open>optimizarRutasBasico\<close> returns; every cell
  that existed before the call is as it was, so the two argument arrays and every store
  and vehicle row read as before (the sort has worked on a copy); the returned array,
  the route objects in it and their arrays are new cells; and read by value the result
  is what the function on values computes. \<^verbatim>\<open>calcularMetricas\<close> returns a new object and
  likewise leaves every existing cell, the routes among them, as it was.
\<close>

theorem arguments_unchanged:
  "(ver_tiendas h ta = Some ts \<and> ver_vehiculos h va = Some vs \<longrightarrow>
      (\<exists>h' res rs. optimizarRutasBasico_h h ta va = Some (h', res) \<and>
         take (length h) h' = h \<and>
         ver_tiendas h' ta = Some ts \<and> ver_vehiculos h' va = Some vs \<and>
         length h \<le> res \<and> leer_array h' res = Some rs \<and>
         (\<forall>r\<in>set rs. length h \<le> r \<and> length h \<le> arr_de h' r) \<and>
         ver_rutas h' res = Some (optimizarRutasBasico ts vs))) \<and>
   (ver_rutas h ra = Some rutas \<longrightarrow>
      (\<exists>h' m. calcularMetricas_h h ra n = Some (h', m) \<and>
         take (length h) h' = h \<and> ver_rutas h' ra = Some rutas \<and>
         length h \<le> m \<and> leer h' m = Some (ObjMetricas (calcularMetricas rutas n))))"
proof (intro conjI impI)
  assume a: "ver_tiendas h ta = Some ts \<and> ver_vehiculos h va = Some vs"
  then have vt: "ver_tiendas h ta = Some ts" and vv: "ver_vehiculos h va = Some vs"
    by simp_all
  from optimizarRutasBasico_h_ok[OF vt vv] obtain h' res rs
    where run: "optimizarRutasBasico_h h ta va = Some (h', res)"
      and c: "conserva (length h) h h'" and res: "length h \<le> res"
      and lr: "leer_array h' res = Some rs"
      and v: "list_all2 (\<lambda>r p. ver_ruta h' r = Some p) rs (optimizarRutasBasico ts vs)"
      and f: "\<forall>r\<in>set rs. length h \<le> r \<and> length h \<le> arr_de h' r"
    by blast
  have 1: "take (length h) h' = h" using c by (rule conserva_take)
  have 2: "ver_tiendas h' ta = Some ts" using c vt by (rule conserva_ver_tiendas)
  have 3: "ver_vehiculos h' va = Some vs" using c vv by (rule conserva_ver_vehiculos)
  have 4: "ver_rutas h' res = Some (optimizarRutasBasico ts vs)"
    unfolding ver_rutas_Some using lr v by blast
  from run 1 2 3 res lr f 4
  show "\<exists>h' res rs. optimizarRutasBasico_h h ta va = Some (h', res) \<and>
         take (length h) h' = h \<and>
         ver_tiendas h' ta = Some ts \<and> ver_vehiculos h' va = Some vs \<and>
         length h \<le> res \<and> leer_array h' res = Some rs \<and>
         (\<forall>r\<in>set rs. length h \<le> r \<and> length h \<le> arr_de h' r) \<and>
         ver_rutas h' res = Some (optimizarRutasBasico ts vs)"
    by blast
next
  assume v: "ver_rutas h ra = Some rutas"
  let ?h' = "h @ [ObjMetricas (calcularMetricas rutas n)]"
  have c: "conserva (length h) h ?h'" by (simp add: conserva_def)
  have 1: "calcularMetricas_h h ra n = Some (?h', length h)"
    using v by (rule calcularMetricas_h_ok)
  have 2: "ver_rutas ?h' ra = Some rutas" using c v by (rule conserva_ver_rutas)
  have 3: "leer ?h' (length h) = Some (ObjMetricas (calcularMetricas rutas n))"
    by (simp add: leer_def)
  from 1 2 3
  show "\<exists>h' m. calcularMetricas_h h ra n = Some (h', m) \<and>
         take (length h) h' = h \<and> ver_rutas h' ra = Some rutas \<and>
         length h \<le> m \<and> leer h' m = Some (ObjMetricas (calcularMetricas rutas n))"
    by (intro exI[of _ ?h'] exI[of _ "length h"]) simp
qed

theorem arguments_unchanged_witness:
  "ver_tiendas heap_ej 3 = Some [tienda_de ''t1'' 2, tienda_de ''t2'' 8] \<and>
   ver_vehiculos heap_ej 4 = Some [vehiculo_de ''A'' 10] \<and>
   ver_rutas heap_ej 7 =
     Some [\<lparr> vehiculo_id = ''A'', vehiculo_nombre = ''A'', capacidad_maxima = Fin 10,
             capacidad_usada = Fin 8, tiendas = [tienda_de ''t2'' 8], eficiencia = Fin 80 \<rparr>] \<and>
   (\<exists>h' res. optimizarRutasBasico_h heap_ej 3 4 = Some (h', res) \<and>
      take (length heap_ej) h' = heap_ej \<and>
      ver_rutas h' res =
        Some (optimizarRutasBasico [tienda_de ''t1'' 2, tienda_de ''t2'' 8]
                [vehiculo_de ''A'' 10])) \<and>
   (\<exists>h' m. calcularMetricas_h heap_ej 7 1 = Some (h', m) \<and>
      take (length heap_ej) h' = heap_ej)"
proof -
  have a: "ver_tiendas heap_ej 3 = Some [tienda_de ''t1'' 2, tienda_de ''t2'' 8]"
    by (simp add: ver_tiendas_def heap_ej_def leer_defs)
  have b: "ver_vehiculos heap_ej 4 = Some [vehiculo_de ''A'' 10]"
    by (simp add: ver_vehiculos_def heap_ej_def leer_defs)
  have c: "ver_rutas heap_ej 7 =
     Some [\<lparr> vehiculo_id = ''A'', vehiculo_nombre = ''A'', capacidad_maxima = Fin 10,
             capacidad_usada = Fin 8, tiendas = [tienda_de ''t2'' 8], eficiencia = Fin 80 \<rparr>]"
    by (simp add: ver_rutas_def ver_ruta_def heap_ej_def leer_defs)
  from arguments_unchanged[where h = heap_ej and ta = 3 and va = 4 and ra = 7 and n = 1,
      of "[tienda_de ''t1'' 2, tienda_de ''t2'' 8]" "[vehiculo_de ''A'' 10]"
         "[\<lparr> vehiculo_id = ''A'', vehiculo_nombre = ''A'', capacidad_maxima = Fin 10,
             capacidad_usada = Fin 8, tiendas = [tienda_de ''t2'' 8], eficiencia = Fin 80 \<rparr>]"]
    a b c
  show ?thesis by blast
qed

section \<open>No vehicles\<close>

lemma fold_asignar_Nil: "fold asignar xs [] = []"
  by (induction xs) simp_all

text \<open>
  Claim C8: with no vehicles the result is the empty list of routes, for every list of
  stores, the non-empty ones included; and on the heap, where a failing access would
  show as \<open>None\<close>, the call returns and the array it returns is empty.
\<close>

theorem no_vehicles_no_routes:
  "optimizarRutasBasico ts [] = [] \<and>
   (ver_tiendas h ta = Some ts \<and> ver_vehiculos h va = Some [] \<longrightarrow>
      (\<exists>h' res. optimizarRutasBasico_h h ta va = Some (h', res) \<and>
         leer_array h' res = Some []))"
proof (intro conjI impI)
  show e: "optimizarRutasBasico ts [] = []"
    by (simp add: optimizarRutasBasico_def repartir_def fold_asignar_Nil)
  assume "ver_tiendas h ta = Some ts \<and> ver_vehiculos h va = Some []"
  then have vt: "ver_tiendas h ta = Some ts" and vv: "ver_vehiculos h va = Some []"
    by simp_all
  from optimizarRutasBasico_h_ok[OF vt vv] obtain h' res rs
    where run: "optimizarRutasBasico_h h ta va = Some (h', res)"
      and lr: "leer_array h' res = Some rs"
      and v: "list_all2 (\<lambda>r p. ver_ruta h' r = Some p) rs (optimizarRutasBasico ts [])"
    by blast
  from v e have "rs = []" by simp
  with run lr show "\<exists>h' res. optimizarRutasBasico_h h ta va = Some (h', res) \<and>
         leer_array h' res = Some []"
    by blast
qed

theorem no_vehicles_no_routes_witness:
  "ver_tiendas heap_sin_vehiculos 1 = Some [tienda_de ''t1'' 5] \<and>
   ver_vehiculos heap_sin_vehiculos 2 = Some [] \<and>
   optimizarRutasBasico [tienda_de ''t1'' 5] [] = [] \<and>
   (\<exists>h' res. optimizarRutasBasico_h heap_sin_vehiculos 1 2 = Some (h', res) \<and>
      leer_array h' res = Some [])"
proof -
  have a: "ver_tiendas heap_sin_vehiculos 1 = Some [tienda_de ''t1'' 5]"
    by (simp add: ver_tiendas_def heap_sin_vehiculos_def leer_defs)
  have b: "ver_vehiculos heap_sin_vehiculos 2 = Some []"
    by (simp add: ver_vehiculos_def heap_sin_vehiculos_def leer_defs)
  from no_vehicles_no_routes[of "[tienda_de ''t1'' 5]" heap_sin_vehiculos 1 2] a b
  show ?thesis by blast
qed

end
